theory Spec2Isabelle
  imports Main "HOL-Library.Char_ord" "HOL-Library.List_Lexorder" "HOL-Library.AList"
begin

section \<open>Outbound chunking (splitDiscordMessage)\<close>

text \<open>
  JavaScript strings are modelled as \<^typ>\<open>string\<close>; \<open>length\<close>, \<open>take\<close> and \<open>drop\<close> stand for
  \<^verbatim>\<open>.length\<close>, \<^verbatim>\<open>.slice(0, n)\<close> and \<^verbatim>\<open>.slice(n)\<close>.
\<close>

definition DISCORD_MAX_LENGTH :: nat where
  "DISCORD_MAX_LENGTH = 1900"

definition newline :: char where
  "newline = CHR 0x0A"

definition space :: char where
  "space = CHR 0x20"

text \<open>
  \<^verbatim>\<open>s.lastIndexOf(c, fromIndex)\<close> for a one-character needle: the greatest index
  \<open>i \<le> fromIndex\<close> with \<open>s[i] = c\<close>, or \<open>-1\<close>. The scan runs left to right over the first
  \<open>fromIndex + 1\<close> characters and remembers the last hit.
\<close>

fun lastIndexAcc :: "string \<Rightarrow> char \<Rightarrow> nat \<Rightarrow> int \<Rightarrow> int" where
  "lastIndexAcc [] c i acc = acc"
| "lastIndexAcc (x # xs) c i acc = lastIndexAcc xs c (Suc i) (if x = c then int i else acc)"

definition lastIndexOf :: "string \<Rightarrow> char \<Rightarrow> nat \<Rightarrow> int" where
  "lastIndexOf s c fromIndex = lastIndexAcc (take (Suc fromIndex) s) c 0 (- 1)"

text \<open>The choice of the split index inside the loop body (source lines 153 to 161).\<close>

definition chooseSplit :: "string \<Rightarrow> int" where
  "chooseSplit remaining =
     (let splitAt = lastIndexOf remaining newline DISCORD_MAX_LENGTH;
          splitAt = (if splitAt \<le> 0 then lastIndexOf remaining space DISCORD_MAX_LENGTH
                     else splitAt);
          splitAt = (if splitAt \<le> 0 then int DISCORD_MAX_LENGTH else splitAt)
      in splitAt)"

text \<open>\<^verbatim>\<open>.replace(/^\n/, '')\<close>: one leading newline is dropped, if there is one.\<close>

fun stripLeadingNewline :: "string \<Rightarrow> string" where
  "stripLeadingNewline [] = []"
| "stripLeadingNewline (x # xs) = (if x = newline then xs else x # xs)"

text \<open>
  The \<^verbatim>\<open>while (remaining.length > 0)\<close> loop. Each element is the chunk pushed by the
  iteration together with the text that the iteration discarded between this chunk and the
  next (what \<open>stripLeadingNewline\<close> removed); the source keeps only the chunk.
\<close>

function splitLoop :: "string \<Rightarrow> (string \<times> string) list" where
  "splitLoop remaining =
     (if length remaining > 0 then
        (if length remaining \<le> DISCORD_MAX_LENGTH then [(remaining, [])]
         else
           (let splitAt = nat (chooseSplit remaining);
                rest = drop splitAt remaining;
                remaining' = stripLeadingNewline rest
            in (take splitAt remaining, take (length rest - length remaining') rest)
                 # splitLoop remaining'))
      else [])"
  by pat_completeness auto

lemma lastIndexAcc_bounds:
  "- 1 \<le> acc \<Longrightarrow> acc < int i \<Longrightarrow>
     - 1 \<le> lastIndexAcc xs c i acc \<and> lastIndexAcc xs c i acc < int i + int (length xs)"
proof (induction xs arbitrary: i acc)
  case Nil
  then show ?case by simp
next
  case (Cons x xs)
  have "- 1 \<le> lastIndexAcc xs c (Suc i) (if x = c then int i else acc) \<and>
        lastIndexAcc xs c (Suc i) (if x = c then int i else acc)
          < int (Suc i) + int (length xs)"
    using Cons.prems by (intro Cons.IH) auto
  then show ?case by simp
qed

lemma lastIndexOf_le: "lastIndexOf s c n \<le> int n"
proof -
  have "lastIndexAcc (take (Suc n) s) c 0 (- 1) < int 0 + int (length (take (Suc n) s))"
    using lastIndexAcc_bounds [of "- 1" 0 "take (Suc n) s" c] by simp
  then show ?thesis by (simp add: lastIndexOf_def min_def split: if_splits)
qed

lemma chooseSplit_range: "0 < chooseSplit r \<and> chooseSplit r \<le> int DISCORD_MAX_LENGTH"
  using lastIndexOf_le [of r newline DISCORD_MAX_LENGTH]
        lastIndexOf_le [of r space DISCORD_MAX_LENGTH]
  by (auto simp: chooseSplit_def Let_def DISCORD_MAX_LENGTH_def)

lemma length_stripLeadingNewline: "length (stripLeadingNewline xs) \<le> length xs"
  by (cases xs) auto

termination splitLoop
proof (relation "measure length", goal_cases)
  case 1
  show ?case by simp
next
  case (2 remaining splitAt rest remaining')
  have "0 < nat (chooseSplit remaining)" using chooseSplit_range [of remaining] by simp
  moreover have "length remaining' \<le> length rest"
    unfolding 2(5) by (rule length_stripLeadingNewline)
  moreover have "length rest = length remaining - nat (chooseSplit remaining)"
    unfolding 2(4) 2(3) by simp
  moreover have "DISCORD_MAX_LENGTH < length remaining" using 2(2) by simp
  ultimately show ?case by simp
qed

declare splitLoop.simps [simp del]

definition splitDiscordMessage :: "string \<Rightarrow> string list" where
  "splitDiscordMessage t =
     (if length t \<le> DISCORD_MAX_LENGTH then [t] else map fst (splitLoop t))"


text \<open>
  Specification-level vocabulary for the split index: the positions \<open>1 \<dots> DISCORD_MAX_LENGTH\<close>
  of the remaining text that hold the boundary character \<open>c\<close>.
\<close>

definition boundaryIndices :: "char \<Rightarrow> string \<Rightarrow> nat set" where
  "boundaryIndices c s = {j. 0 < j \<and> j \<le> DISCORD_MAX_LENGTH \<and> j < length s \<and> s ! j = c}"

definition longText :: string where
  "longText = replicate 1900 (CHR ''a'') @ newline # ''b''"


section \<open>Data model\<close>

text \<open>
  An optional string field of a JavaScript object is a \<^typ>\<open>string option\<close>; \<open>truthy\<close> is the
  test that \<^verbatim>\<open>if (x)\<close> and \<^verbatim>\<open>x && \<dots>\<close> perform on it (absent and \<^verbatim>\<open>''\<close> are falsy).
\<close>

definition truthy :: "string option \<Rightarrow> bool" where
  "truthy x = (case x of None \<Rightarrow> False | Some s \<Rightarrow> s \<noteq> [])"

definition str :: "string option \<Rightarrow> string" where
  "str x = (case x of None \<Rightarrow> [] | Some s \<Rightarrow> s)"

record RegisteredGroup =
  g_name :: string
  g_folder :: string
  g_trigger :: "string option"
  g_added_at :: string
  g_containerConfig :: "string option"

record NewMessage =
  m_id :: string
  m_chat_jid :: string
  m_sender_name :: string
  m_content :: string
  m_timestamp :: string

datatype TaskStatus = Active | Paused

record Task =
  t_id :: string
  t_group_folder :: string
  t_chat_jid :: string
  t_prompt :: string
  t_schedule_type :: string
  t_schedule_value :: string
  t_context_mode :: string
  t_next_run :: "string option"
  t_status :: TaskStatus
  t_created_at :: string

record ProcessedEmailRecord =
  e_id :: string
  e_threadId :: string
  e_sender :: string
  e_subject :: string
  e_processedAt :: string
  e_responded :: bool


datatype RequestStatus = Pending | Approved | Denied | Applied | Failed

record HostModificationRequest =
  r_id :: string
  r_groupFolder :: string
  r_chatJid :: string
  r_summary :: string
  r_filePath :: "string list"
  r_timestamp :: string
  r_status :: RequestStatus
  r_approvedBy :: "string option"
  r_error :: "string option"

text \<open>The payload of an IPC file after \<^verbatim>\<open>JSON.parse\<close>; every field may be absent.\<close>

record IpcData =
  d_type :: "string option"
  d_taskId :: "string option"
  d_prompt :: "string option"
  d_schedule_type :: "string option"
  d_schedule_value :: "string option"
  d_context_mode :: "string option"
  d_groupFolder :: "string option"
  d_chatJid :: "string option"
  d_jid :: "string option"
  d_name :: "string option"
  d_folder :: "string option"
  d_trigger :: "string option"
  d_containerConfig :: "string option"
  d_userId :: "string option"
  d_text :: "string option"
  d_duration :: "nat option"

text \<open>
  \<^verbatim>\<open>JSON.parse\<close> throws on text that is not JSON; on the text \<^verbatim>\<open>null\<close> it returns \<^verbatim>\<open>null\<close>, and
  the first property access on that throws. Every other value is read through its
  properties.
\<close>

datatype Parsed = JsonSyntaxError | JsonNull | JsonObject IpcData

record AgentInput =
  a_prompt :: string
  a_sessionId :: "string option"
  a_groupFolder :: string
  a_chatJid :: string
  a_isMain :: bool

record ContainerOutput =
  o_error :: bool
  o_result :: "string option"
  o_newSessionId :: "string option"

datatype AgentResult = AgentThrows | AgentReturns ContainerOutput

datatype Level = LDebug | LInfo | LWarn | LError

datatype Outcome = Returned | Thrown

text \<open>A path is the list of its segments; \<^verbatim>\<open>path.join\<close> is list concatenation.\<close>

type_synonym Path = "string list"
type_synonym Files = "(Path \<times> string) list"


record SendArgs =
  sa_to :: string
  sa_subject :: string
  sa_body :: string
  sa_threadId :: "string option"
  sa_inReplyTo :: "string option"

datatype EmailContextMode = ThreadMode | SenderMode | SingleMode

text \<open>
  What the router does not decide itself is a parameter: the JavaScript runtime
  (\<^verbatim>\<open>RegExp\<close>, \<^verbatim>\<open>JSON.parse\<close>, \<^verbatim>\<open>Date\<close>, \<^verbatim>\<open>Math.random\<close>), the agent sandbox, the chat and mail
  transports, the cron parser, the external code-modification tool, and the constants of
  the configuration module.
  \<^item> \<open>rx src subject\<close> is \<^verbatim>\<open>subject.match(new RegExp(src, 'i'))\<close>: \<open>None\<close> when the
    constructor throws a syntax error, otherwise whether there is a match;
  \<^item> \<open>runContainerAgent n input\<close> is the sandbox's answer to the \<open>n\<close>-th invocation;
  \<^item> \<open>deliver jid text\<close> tells whether the transport accepts the message;
  \<^item> \<open>claude plan files\<close> is the synchronous run of the code-modification tool: an error
    text or its output, and the file system it leaves behind;
  \<^item> \<open>toISO ms\<close> is \<^verbatim>\<open>new Date(ms).toISOString()\<close>, which throws outside the date range;
  \<^item> \<open>parseDate v\<close> is \<^verbatim>\<open>new Date(v)\<close> rendered as ISO text, \<open>None\<close> for an invalid date;
  \<^item> \<open>cronNext v\<close> is the next run of a cron expression, \<open>None\<close> when the parser throws.
\<close>

record World =
  rx :: "string \<Rightarrow> string \<Rightarrow> bool option"
  runContainerAgent :: "nat \<Rightarrow> AgentInput \<Rightarrow> AgentResult"
  deliver :: "string \<Rightarrow> string \<Rightarrow> bool"
  claude :: "string \<Rightarrow> Files \<Rightarrow> (string + string) \<times> Files"
  gmailSend :: "SendArgs \<Rightarrow> bool"
  jsonParse :: "string \<Rightarrow> Parsed"
  now :: nat
  nowISO :: string
  toISO :: "int \<Rightarrow> string option"
  parseDate :: "string \<Rightarrow> string option"
  cronNext :: "string \<Rightarrow> string option"
  random36 :: string
  batchLimit :: nat
  MAIN_GROUP_FOLDER :: string
  replyPrefix :: "string option"
  contextMode :: EmailContextMode

text \<open>
  The router's module-level variables (\<open>lastTimestamp\<close>, \<open>sessions\<close>, \<open>registeredGroups\<close>,
  \<open>lastAgentTimestamp\<close>, and \<open>pendingRequests\<close> of the approval module), the tables of the
  persistent store, the files, and what the router has emitted. Objects and \<^verbatim>\<open>Map\<close>s are
  association lists in enumeration order; chat identities are never canonical array
  indices, so the enumeration order of \<open>registeredGroups\<close> is its insertion order.
\<close>

record Host =
  lastTimestamp :: string
  sessions :: "(string \<times> string) list"
  registeredGroups :: "(string \<times> RegisteredGroup) list"
  lastAgentTimestamp :: "(string \<times> string) list"
  pendingRequests :: "(string \<times> HostModificationRequest) list"
  messages :: "NewMessage list"
  tasks :: "Task list"
  processedEmails :: "ProcessedEmailRecord list"
  files :: Files
  outbox :: "(string \<times> string) list"
  typing :: "(string \<times> bool) list"
  mailAttempts :: "SendArgs list"
  mailSent :: "SendArgs list"
  agentCalls :: "AgentInput list"
  logs :: "(Level \<times> string) list"


section \<open>Transports\<close>

definition logMsg :: "Level \<Rightarrow> string \<Rightarrow> Host \<Rightarrow> Host" where
  "logMsg l m h = h\<lparr>logs := logs h @ [(l, m)]\<rparr>"

definition startsWith :: "string \<Rightarrow> string \<Rightarrow> bool" where
  "startsWith s p = (take (length p) s = p)"

text \<open>
  \<^verbatim>\<open>jid.replace('discord:', '')\<close> removes the first occurrence; it is only applied to
  identities that start with the prefix.
\<close>

fun replaceFirst :: "string \<Rightarrow> string \<Rightarrow> string" where
  "replaceFirst [] p = []"
| "replaceFirst (c # cs) p =
     (if startsWith (c # cs) p \<and> p \<noteq> [] then drop (length p) (c # cs)
      else c # replaceFirst cs p)"

text \<open>
  \<open>sendDiscordChunked\<close>: the chunks are sent in order; the first refused chunk throws and
  the remaining ones are not sent. The result tells whether every chunk went out.
\<close>

fun sendDiscordChunks :: "World \<Rightarrow> string \<Rightarrow> string list \<Rightarrow> Host \<Rightarrow> Host \<times> bool" where
  "sendDiscordChunks w target [] h = (h, True)"
| "sendDiscordChunks w target (chunk # chunks) h =
     (if deliver w target chunk
      then sendDiscordChunks w target chunks (h\<lparr>outbox := outbox h @ [(target, chunk)]\<rparr>)
      else (h, False))"

definition sendDiscordMessage :: "World \<Rightarrow> string \<Rightarrow> string \<Rightarrow> Host \<Rightarrow> Host" where
  "sendDiscordMessage w channelOrUserId t h =
     (case sendDiscordChunks w channelOrUserId (splitDiscordMessage t) h of
        (h', True) \<Rightarrow> logMsg LInfo ''Discord message sent'' h'
      | (h', False) \<Rightarrow> logMsg LError ''Failed to send Discord message'' h')"

text \<open>\<open>sendMessage\<close> never throws: a refused send is logged.\<close>

definition sendMessage :: "World \<Rightarrow> string \<Rightarrow> string \<Rightarrow> Host \<Rightarrow> Host" where
  "sendMessage w jid t h =
     (if startsWith jid ''discord:''
      then sendDiscordMessage w (replaceFirst jid ''discord:'') t h
      else if deliver w jid t
      then logMsg LInfo ''Message sent'' (h\<lparr>outbox := outbox h @ [(jid, t)]\<rparr>)
      else logMsg LError ''Failed to send message'' h)"

text \<open>
  \<open>setTyping\<close> is best effort and never throws; the model records the presence updates
  that are requested.
\<close>

definition setTyping :: "string \<Rightarrow> bool \<Rightarrow> Host \<Rightarrow> Host" where
  "setTyping jid isTyping h =
     (if startsWith jid ''discord:''
      then (if isTyping then h\<lparr>typing := typing h @ [(jid, True)]\<rparr> else h)
      else h\<lparr>typing := typing h @ [(jid, isTyping)]\<rparr>)"



section \<open>Persistent store\<close>

text \<open>
  Modelled from the spec: the store module (\<^verbatim>\<open>db.js\<close>) is not among the sources. The spec
  describes it as a key-indexed CRUD collaborator over tasks, messages and processed-email
  records; tasks are looked up, created, updated and deleted by their id.
\<close>

definition getTaskById :: "string \<Rightarrow> Host \<Rightarrow> Task option" where
  "getTaskById tid h = find (\<lambda>t. t_id t = tid) (tasks h)"

definition createTask :: "Task \<Rightarrow> Host \<Rightarrow> Host" where
  "createTask t h = h\<lparr>tasks := tasks h @ [t]\<rparr>"

definition updateTaskStatus :: "string \<Rightarrow> TaskStatus \<Rightarrow> Host \<Rightarrow> Host" where
  "updateTaskStatus tid st h =
     h\<lparr>tasks := map (\<lambda>t. if t_id t = tid then t\<lparr>t_status := st\<rparr> else t) (tasks h)\<rparr>"

definition deleteTask :: "string \<Rightarrow> Host \<Rightarrow> Host" where
  "deleteTask tid h = h\<lparr>tasks := filter (\<lambda>t. t_id t \<noteq> tid) (tasks h)\<rparr>"

text \<open>
  Modelled from the spec: \<open>getNewMessages\<close> fetches all messages across the given chat
  identities with a timestamp greater than the watermark, in ascending order, in a bounded
  batch; \<open>getMessagesSince\<close> gathers the messages of one chat since a timestamp. Timestamps
  are ISO-8601 texts compared as texts.
\<close>

definition getNewMessages :: "World \<Rightarrow> string list \<Rightarrow> string \<Rightarrow> Host \<Rightarrow> NewMessage list" where
  "getNewMessages w jids since h =
     take (batchLimit w)
       (sort_key m_timestamp
          (filter (\<lambda>m. m_chat_jid m \<in> set jids \<and> since < m_timestamp m) (messages h)))"

definition getMessagesSince :: "string \<Rightarrow> string \<Rightarrow> Host \<Rightarrow> NewMessage list" where
  "getMessagesSince chatJid since h =
     sort_key m_timestamp
       (filter (\<lambda>m. m_chat_jid m = chatJid \<and> since < m_timestamp m) (messages h))"

text \<open>
  Modelled from the spec: a ProcessedEmailRecord is keyed by the message id, and dedup is
  by id. \<open>markEmailProcessed\<close> creates the record with \<open>responded = false\<close>;
  \<open>markEmailResponded\<close> sets the flag.
\<close>

definition isEmailProcessed :: "string \<Rightarrow> Host \<Rightarrow> bool" where
  "isEmailProcessed eid h = (eid \<in> set (map e_id (processedEmails h)))"

definition markEmailProcessed :: "World \<Rightarrow> string \<Rightarrow> string \<Rightarrow> string \<Rightarrow> string \<Rightarrow> Host \<Rightarrow> Host" where
  "markEmailProcessed w eid threadId sender subject h =
     (if isEmailProcessed eid h then h
      else h\<lparr>processedEmails := processedEmails h @
             [\<lparr>e_id = eid, e_threadId = threadId, e_sender = sender, e_subject = subject,
               e_processedAt = nowISO w, e_responded = False\<rparr>]\<rparr>)"

definition markEmailResponded :: "string \<Rightarrow> Host \<Rightarrow> Host" where
  "markEmailResponded eid h =
     h\<lparr>processedEmails :=
         map (\<lambda>r. if e_id r = eid then r\<lparr>e_responded := True\<rparr> else r) (processedEmails h)\<rparr>"


section \<open>IPC command bus\<close>

definition isDigit :: "char \<Rightarrow> bool" where
  "isDigit c = (CHR ''0'' \<le> c \<and> c \<le> CHR ''9'')"

text \<open>JavaScript white space (\<^verbatim>\<open>\s\<close>, \<^verbatim>\<open>trim\<close>, \<^verbatim>\<open>parseInt\<close>) among the 8-bit characters.\<close>

definition isSpace :: "char \<Rightarrow> bool" where
  "isSpace c = (c \<in> set [CHR 0x09, CHR 0x0A, CHR 0x0B, CHR 0x0C, CHR 0x0D, CHR 0x20, CHR 0xA0])"

definition digitVal :: "char \<Rightarrow> int" where
  "digitVal c = int (of_char c) - 48"

text \<open>
  \<^verbatim>\<open>parseInt(s, 10)\<close>: leading white space is skipped, a sign is read, then the longest run
  of digits; \<open>None\<close> is \<^verbatim>\<open>NaN\<close> (no digit).
\<close>

definition parseInt :: "string \<Rightarrow> int option" where
  "parseInt s =
     (let s1 = dropWhile isSpace s;
          neg = (s1 \<noteq> [] \<and> hd s1 = CHR ''-'');
          s2 = (if s1 \<noteq> [] \<and> (hd s1 = CHR ''-'' \<or> hd s1 = CHR ''+'') then tl s1 else s1);
          ds = takeWhile isDigit s2
      in if ds = [] then None
         else Some ((if neg then - 1 else 1) * foldl (\<lambda>a c. 10 * a + digitVal c) 0 ds))"

text \<open>\<^verbatim>\<open>String(n)\<close> for a natural number, as a template literal renders \<^verbatim>\<open>Date.now()\<close>.\<close>

definition digitChar :: "nat \<Rightarrow> char" where
  "digitChar n = ''0123456789'' ! n"

fun decimal :: "nat \<Rightarrow> string" where
  "decimal n = (if n < 10 then [digitChar n] else decimal (n div 10) @ [digitChar (n mod 10)])"

declare decimal.simps [simp del]

datatype NextRun = NextInvalid string | NextThrows | NextAt "string option"

definition computeNextRun :: "World \<Rightarrow> string \<Rightarrow> string \<Rightarrow> NextRun" where
  "computeNextRun w scheduleType v =
     (if scheduleType = ''cron'' then
        (case cronNext w v of
           None \<Rightarrow> NextInvalid ''Invalid cron expression''
         | Some n \<Rightarrow> NextAt (Some n))
      else if scheduleType = ''interval'' then
        (case parseInt v of
           None \<Rightarrow> NextInvalid ''Invalid interval''
         | Some ms \<Rightarrow>
             if ms \<le> 0 then NextInvalid ''Invalid interval''
             else (case toISO w (int (now w) + ms) of
                     None \<Rightarrow> NextThrows
                   | Some n \<Rightarrow> NextAt (Some n)))
      else if scheduleType = ''once'' then
        (case parseDate w v of
           None \<Rightarrow> NextInvalid ''Invalid timestamp''
         | Some n \<Rightarrow> NextAt (Some n))
      else NextAt None)"

text \<open>
  \<^verbatim>\<open>Object.entries(registeredGroups).find(([, group]) => group.folder === targetGroup)?.[0]\<close>
\<close>

definition findJidByFolder :: "string \<Rightarrow> Host \<Rightarrow> string option" where
  "findJidByFolder targetGroup h =
     map_option fst (find (\<lambda>(jid, g). g_folder g = targetGroup) (registeredGroups h))"

definition scheduleTask :: "World \<Rightarrow> IpcData \<Rightarrow> string \<Rightarrow> bool \<Rightarrow> Host \<Rightarrow> Host \<times> Outcome" where
  "scheduleTask w d sourceGroup isMain h =
     (if truthy (d_prompt d) \<and> truthy (d_schedule_type d) \<and> truthy (d_schedule_value d)
         \<and> truthy (d_groupFolder d) then
        (let targetGroup = str (d_groupFolder d) in
         if \<not> isMain \<and> targetGroup \<noteq> sourceGroup then
           (logMsg LWarn ''Unauthorized schedule_task attempt blocked'' h, Returned)
         else
           (let targetJid = findJidByFolder targetGroup h in
            if \<not> truthy targetJid then
              (logMsg LWarn ''Cannot schedule task: target group not registered'' h, Returned)
            else
              (case computeNextRun w (str (d_schedule_type d)) (str (d_schedule_value d)) of
                 NextInvalid msg \<Rightarrow> (logMsg LWarn msg h, Returned)
               | NextThrows \<Rightarrow> (h, Thrown)
               | NextAt nextRun \<Rightarrow>
                   (let taskId = ''task-'' @ decimal (now w) @ ''-'' @ random36 w;
                        contextMode =
                          (if d_context_mode d = Some ''group'' \<or> d_context_mode d = Some ''isolated''
                           then str (d_context_mode d) else ''isolated'')
                    in (logMsg LInfo ''Task created via IPC''
                          (createTask
                             \<lparr>t_id = taskId, t_group_folder = targetGroup,
                              t_chat_jid = str targetJid, t_prompt = str (d_prompt d),
                              t_schedule_type = str (d_schedule_type d),
                              t_schedule_value = str (d_schedule_value d),
                              t_context_mode = contextMode, t_next_run = nextRun,
                              t_status = Active, t_created_at = nowISO w\<rparr> h),
                        Returned)))))
      else (h, Returned))"


definition pauseTask :: "IpcData \<Rightarrow> string \<Rightarrow> bool \<Rightarrow> Host \<Rightarrow> Host" where
  "pauseTask d sourceGroup isMain h =
     (if truthy (d_taskId d) then
        (case getTaskById (str (d_taskId d)) h of
           Some task \<Rightarrow>
             if isMain \<or> t_group_folder task = sourceGroup
             then logMsg LInfo ''Task paused via IPC'' (updateTaskStatus (str (d_taskId d)) Paused h)
             else logMsg LWarn ''Unauthorized task pause attempt'' h
         | None \<Rightarrow> logMsg LWarn ''Unauthorized task pause attempt'' h)
      else h)"

definition resumeTask :: "IpcData \<Rightarrow> string \<Rightarrow> bool \<Rightarrow> Host \<Rightarrow> Host" where
  "resumeTask d sourceGroup isMain h =
     (if truthy (d_taskId d) then
        (case getTaskById (str (d_taskId d)) h of
           Some task \<Rightarrow>
             if isMain \<or> t_group_folder task = sourceGroup
             then logMsg LInfo ''Task resumed via IPC'' (updateTaskStatus (str (d_taskId d)) Active h)
             else logMsg LWarn ''Unauthorized task resume attempt'' h
         | None \<Rightarrow> logMsg LWarn ''Unauthorized task resume attempt'' h)
      else h)"

definition cancelTask :: "IpcData \<Rightarrow> string \<Rightarrow> bool \<Rightarrow> Host \<Rightarrow> Host" where
  "cancelTask d sourceGroup isMain h =
     (if truthy (d_taskId d) then
        (case getTaskById (str (d_taskId d)) h of
           Some task \<Rightarrow>
             if isMain \<or> t_group_folder task = sourceGroup
             then logMsg LInfo ''Task cancelled via IPC'' (deleteTask (str (d_taskId d)) h)
             else logMsg LWarn ''Unauthorized task cancel attempt'' h
         | None \<Rightarrow> logMsg LWarn ''Unauthorized task cancel attempt'' h)
      else h)"

text \<open>
  \<open>refresh_groups\<close>: the metadata sync catches its own errors and touches only chat names;
  the snapshot is a file for the sandbox. The model holds neither.
\<close>

definition refreshGroups :: "string \<Rightarrow> bool \<Rightarrow> Host \<Rightarrow> Host" where
  "refreshGroups sourceGroup isMain h =
     (if isMain then logMsg LInfo ''Group metadata refresh requested via IPC'' h
      else logMsg LWarn ''Unauthorized refresh_groups attempt blocked'' h)"

definition registerGroup :: "string \<Rightarrow> RegisteredGroup \<Rightarrow> Host \<Rightarrow> Host" where
  "registerGroup jid grp h =
     logMsg LInfo ''Group registered''
       (h\<lparr>registeredGroups := AList.update jid grp (registeredGroups h)\<rparr>)"

definition registerGroupIpc :: "World \<Rightarrow> IpcData \<Rightarrow> string \<Rightarrow> bool \<Rightarrow> Host \<Rightarrow> Host" where
  "registerGroupIpc w d sourceGroup isMain h =
     (if \<not> isMain then logMsg LWarn ''Unauthorized register_group attempt blocked'' h
      else if truthy (d_jid d) \<and> truthy (d_name d) \<and> truthy (d_folder d) \<and> truthy (d_trigger d)
      then registerGroup (str (d_jid d))
             \<lparr>g_name = str (d_name d), g_folder = str (d_folder d),
              g_trigger = Some (str (d_trigger d)), g_added_at = nowISO w,
              g_containerConfig = d_containerConfig d\<rparr> h
      else logMsg LWarn ''Invalid register_group request - missing required fields'' h)"

definition discordDm :: "World \<Rightarrow> IpcData \<Rightarrow> string \<Rightarrow> bool \<Rightarrow> Host \<Rightarrow> Host" where
  "discordDm w d sourceGroup isMain h =
     (if \<not> isMain then logMsg LWarn ''Unauthorized discord_dm attempt blocked'' h
      else if truthy (d_userId d) \<and> truthy (d_text d) then
        (case sendDiscordChunks w (str (d_userId d)) (splitDiscordMessage (str (d_text d))) h of
           (h', True) \<Rightarrow> logMsg LInfo ''Discord DM sent via IPC'' h'
         | (h', False) \<Rightarrow> logMsg LError ''Failed to send Discord DM'' h')
      else logMsg LWarn ''Invalid discord_dm request - missing userId or text'' h)"

text \<open>The \<^verbatim>\<open>switch (data.type)\<close> of \<open>processTaskIpc\<close>.\<close>

definition processTaskIpc :: "World \<Rightarrow> IpcData \<Rightarrow> string \<Rightarrow> bool \<Rightarrow> Host \<Rightarrow> Host \<times> Outcome" where
  "processTaskIpc w d sourceGroup isMain h =
     (if d_type d = Some ''schedule_task'' then scheduleTask w d sourceGroup isMain h
      else if d_type d = Some ''pause_task'' then (pauseTask d sourceGroup isMain h, Returned)
      else if d_type d = Some ''resume_task'' then (resumeTask d sourceGroup isMain h, Returned)
      else if d_type d = Some ''cancel_task'' then (cancelTask d sourceGroup isMain h, Returned)
      else if d_type d = Some ''refresh_groups''
      then (refreshGroups sourceGroup isMain h, Returned)
      else if d_type d = Some ''register_group''
      then (registerGroupIpc w d sourceGroup isMain h, Returned)
      else if d_type d = Some ''discord_dm'' then (discordDm w d sourceGroup isMain h, Returned)
      else (logMsg LWarn ''Unknown IPC task type'' h, Returned))"

subsection \<open>The watcher\<close>

definition ipcBaseDir :: Path where
  "ipcBaseDir = [''ipc'']"

definition errorDir :: Path where
  "errorDir = ipcBaseDir @ [''errors'']"

definition messagesDir :: "string \<Rightarrow> Path" where
  "messagesDir sourceGroup = ipcBaseDir @ [sourceGroup, ''messages'']"

definition tasksDir :: "string \<Rightarrow> Path" where
  "tasksDir sourceGroup = ipcBaseDir @ [sourceGroup, ''tasks'']"

definition unlinkSync :: "Path \<Rightarrow> Host \<Rightarrow> Host" where
  "unlinkSync p h = h\<lparr>files := AList.delete p (files h)\<rparr>"

text \<open>
  The \<^verbatim>\<open>catch\<close> block of both file loops: log, then move the file to
  \<^verbatim>\<open>errors/<sourceGroup>-<file>\<close>.
\<close>

definition quarantine :: "string \<Rightarrow> string \<Rightarrow> string \<Rightarrow> Path \<Rightarrow> string \<Rightarrow> Host \<Rightarrow> Host" where
  "quarantine msg sourceGroup file filePath content h =
     (let h1 = logMsg LError msg h
      in h1\<lparr>files := AList.update (errorDir @ [sourceGroup @ ''-'' @ file]) content
                        (AList.delete filePath (files h1))\<rparr>)"

text \<open>
  One iteration of \<^verbatim>\<open>for (const file of messageFiles)\<close>. A typing indicator is switched
  on at once; the timer that switches it off later is outside one iteration.
\<close>

definition processMessageFile :: "World \<Rightarrow> string \<Rightarrow> string \<Rightarrow> Host \<Rightarrow> Host" where
  "processMessageFile w sourceGroup file h =
     (let isMain = (sourceGroup = MAIN_GROUP_FOLDER w);
          filePath = messagesDir sourceGroup @ [file];
          content = str (map_of (files h) filePath)
      in case jsonParse w content of
           JsonSyntaxError \<Rightarrow>
             quarantine ''Error processing IPC message'' sourceGroup file filePath content h
         | JsonNull \<Rightarrow>
             quarantine ''Error processing IPC message'' sourceGroup file filePath content h
         | JsonObject d \<Rightarrow>
             (let h1 =
                (if d_type d = Some ''message'' \<and> truthy (d_chatJid d) \<and> truthy (d_text d) then
                   (let targetGroup = map_of (registeredGroups h) (str (d_chatJid d)) in
                    if isMain \<or> (case targetGroup of None \<Rightarrow> False
                                  | Some g \<Rightarrow> g_folder g = sourceGroup)
                    then logMsg LInfo ''IPC message sent''
                           (sendMessage w (str (d_chatJid d)) (str (d_text d)) h)
                    else logMsg LWarn ''Unauthorized IPC message attempt blocked'' h)
                 else if d_type d = Some ''typing_indicator'' \<and> truthy (d_chatJid d) then
                   logMsg LInfo ''IPC typing indicator'' (setTyping (str (d_chatJid d)) True h)
                 else h)
              in unlinkSync filePath h1))"

text \<open>One iteration of \<^verbatim>\<open>for (const file of taskFiles)\<close>.\<close>

definition processTaskFile :: "World \<Rightarrow> string \<Rightarrow> string \<Rightarrow> Host \<Rightarrow> Host" where
  "processTaskFile w sourceGroup file h =
     (let isMain = (sourceGroup = MAIN_GROUP_FOLDER w);
          filePath = tasksDir sourceGroup @ [file];
          content = str (map_of (files h) filePath)
      in case jsonParse w content of
           JsonSyntaxError \<Rightarrow>
             quarantine ''Error processing IPC task'' sourceGroup file filePath content h
         | JsonNull \<Rightarrow>
             quarantine ''Error processing IPC task'' sourceGroup file filePath content h
         | JsonObject d \<Rightarrow>
             (case processTaskIpc w d sourceGroup isMain h of
                (h1, Returned) \<Rightarrow> unlinkSync filePath h1
              | (h1, Thrown) \<Rightarrow>
                  quarantine ''Error processing IPC task'' sourceGroup file filePath content h1))"

text \<open>
  \<^verbatim>\<open>readdirSync(dir).filter((f) => f.endsWith('.json'))\<close>: the names of the files directly
  inside \<open>dir\<close>.
\<close>

definition endsWith :: "string \<Rightarrow> string \<Rightarrow> bool" where
  "endsWith s p = (length p \<le> length s \<and> drop (length s - length p) s = p)"

definition jsonFilesIn :: "Path \<Rightarrow> Host \<Rightarrow> string list" where
  "jsonFilesIn dir h =
     filter (\<lambda>f. endsWith f ''.json'')
       (map (\<lambda>(p, c). last p) (filter (\<lambda>(p, c). p \<noteq> [] \<and> butlast p = dir) (files h)))"

text \<open>The body of \<^verbatim>\<open>for (const sourceGroup of groupFolders)\<close>, and one pass of the watcher.\<close>

definition processGroupIpc :: "World \<Rightarrow> string \<Rightarrow> Host \<Rightarrow> Host" where
  "processGroupIpc w sourceGroup h =
     (let h1 = fold (processMessageFile w sourceGroup) (jsonFilesIn (messagesDir sourceGroup) h) h
      in fold (processTaskFile w sourceGroup) (jsonFilesIn (tasksDir sourceGroup) h1) h1)"

definition groupFolders :: "Host \<Rightarrow> string list" where
  "groupFolders h =
     filter (\<lambda>f. f \<noteq> ''errors'')
       (remdups (map (\<lambda>(p, c). p ! 1)
          (filter (\<lambda>(p, c). 2 < length p \<and> take 1 p = ipcBaseDir) (files h))))"

definition processIpcFiles :: "World \<Rightarrow> Host \<Rightarrow> Host" where
  "processIpcFiles w h = fold (processGroupIpc w) (groupFolders h) h"



section \<open>Host-change approval\<close>

definition toLowerChar :: "char \<Rightarrow> char" where
  "toLowerChar c =
     (case map_of (zip ''ABCDEFGHIJKLMNOPQRSTUVWXYZ'' ''abcdefghijklmnopqrstuvwxyz'') c of
        Some l \<Rightarrow> l
      | None \<Rightarrow> c)"

definition toLowerCase :: "string \<Rightarrow> string" where
  "toLowerCase s = map toLowerChar s"

text \<open>
  \<^verbatim>\<open>content.match(/^(approve|deny)(?:\s+(hc-\d+))?\s*$/i)\<close>: the result is the pair of the
  two capture groups. After the keyword, either the rest is white space only, or it is
  white space, then \<^verbatim>\<open>hc-\<close> and digits, then white space only. The flag \<^verbatim>\<open>i\<close> also
  covers \<^verbatim>\<open>hc-\<close>; the groups keep the letter case of the input.
\<close>

definition matchApproval :: "string \<Rightarrow> (string \<times> string option) option" where
  "matchApproval content =
     (let lc = toLowerCase content;
          n = (if startsWith lc ''approve'' then 7 else if startsWith lc ''deny'' then 4 else 0)
      in if n = 0 then None
         else
           (let rest = drop n content;
                afterWs = dropWhile isSpace rest;
                ds = takeWhile isDigit (drop 3 afterWs)
            in if afterWs = [] then Some (take n content, None)
               else if afterWs \<noteq> rest \<and> startsWith (toLowerCase afterWs) ''hc-'' \<and> ds \<noteq> []
                       \<and> list_all isSpace (drop (3 + length ds) afterWs)
               then Some (take n content, Some (take (3 + length ds) afterWs))
               else None))"

record ApprovalCheck =
  isApproval :: bool
  requestId :: string
  approved :: bool

text \<open>The body of \<^verbatim>\<open>for (const req of pendingRequests.values())\<close>.\<close>

definition pickLatest ::
  "string \<Rightarrow> HostModificationRequest \<Rightarrow> HostModificationRequest option
     \<Rightarrow> HostModificationRequest option" where
  "pickLatest chatJid req latest =
     (if r_chatJid req = chatJid \<and> r_status req = Pending then
        (case latest of
           None \<Rightarrow> Some req
         | Some l \<Rightarrow> if r_timestamp l < r_timestamp req then Some req else latest)
      else latest)"

definition checkApprovalMessage :: "string \<Rightarrow> string \<Rightarrow> Host \<Rightarrow> ApprovalCheck" where
  "checkApprovalMessage content chatJid h =
     (case matchApproval content of
        None \<Rightarrow> \<lparr>isApproval = False, requestId = [], approved = False\<rparr>
      | Some (keyword, explicitId) \<Rightarrow>
          (let appr = (toLowerCase keyword = ''approve'') in
           if truthy explicitId
           then \<lparr>isApproval = True, requestId = str explicitId, approved = appr\<rparr>
           else
             (case fold (pickLatest chatJid) (map snd (pendingRequests h)) None of
                None \<Rightarrow> \<lparr>isApproval = False, requestId = [], approved = False\<rparr>
              | Some latest \<Rightarrow>
                  \<lparr>isApproval = True, requestId = r_id latest, approved = appr\<rparr>)))"

text \<open>\<^verbatim>\<open>fs.renameSync\<close> throws when the source does not exist (\<open>None\<close>).\<close>

definition renameSync :: "Path \<Rightarrow> Path \<Rightarrow> Files \<Rightarrow> Files option" where
  "renameSync src dst fs =
     (case map_of fs src of
        None \<Rightarrow> None
      | Some c \<Rightarrow> Some (AList.update dst c (AList.delete src fs)))"

definition groupsPath :: "string \<Rightarrow> string \<Rightarrow> Path" where
  "groupsPath folder file = [''groups'', folder, file]"

definition backtick :: string where
  "backtick = [CHR 0x60]"

text \<open>
  The request object lives in the \<^verbatim>\<open>Map\<close>; an assignment to one of its fields is an update
  of the entry in place.
\<close>

definition updateRequest ::
  "string \<Rightarrow> (HostModificationRequest \<Rightarrow> HostModificationRequest) \<Rightarrow> Host \<Rightarrow> Host" where
  "updateRequest rid f h =
     h\<lparr>pendingRequests := map (\<lambda>(k, r). if k = rid then (k, f r) else (k, r)) (pendingRequests h)\<rparr>"

text \<open>
  The \<^verbatim>\<open>catch\<close> block of the apply phase, up to its \<^verbatim>\<open>await\<close>, and what follows it.
\<close>

definition applyFailed :: "World \<Rightarrow> string \<Rightarrow> string \<Rightarrow> string \<Rightarrow> Host \<Rightarrow> Host list" where
  "applyFailed w rid chatJid err h =
     (let h1 = updateRequest rid (\<lambda>r. r\<lparr>r_status := Failed, r_error := Some err\<rparr>) h
      in [h1,
          logMsg LError ''Failed to apply host changes''
            (sendMessage w chatJid
               (''Host changes '' @ backtick @ rid @ backtick @ '' failed to apply: '' @ take 300 err)
               h1)])"

text \<open>
  \<open>handleApproval\<close> is an async function. JavaScript runs the code between two \<^verbatim>\<open>await\<close>s
  without interruption, so the states that any other code can observe are those at the
  \<^verbatim>\<open>await\<close>s and at the return. \<open>handleApprovalStates\<close> lists them in order; the last one is
  the state when the call has returned. Inside the apply phase the source assigns
  \<open>applied\<close> and then renames the plan file; when the rename throws, the \<^verbatim>\<open>catch\<close> block
  assigns \<open>failed\<close> before the next \<^verbatim>\<open>await\<close> is reached.
\<close>

definition applyApproved :: "World \<Rightarrow> string \<Rightarrow> HostModificationRequest \<Rightarrow> Host \<Rightarrow> Host list" where
  "applyApproved w rid request h =
     (case map_of (files h) (r_filePath request) of
        None \<Rightarrow> applyFailed w rid (r_chatJid request) ''ENOENT'' h
      | Some planContent \<Rightarrow>
          (case claude w planContent (files h) of
             (Inl err, fs1) \<Rightarrow> applyFailed w rid (r_chatJid request) err (h\<lparr>files := fs1\<rparr>)
           | (Inr result, fs1) \<Rightarrow>
               (let h1 = updateRequest rid (\<lambda>r. r\<lparr>r_status := Applied\<rparr>) (h\<lparr>files := fs1\<rparr>);
                    appliedPath = groupsPath (r_groupFolder request)
                                    (''HOST_CHANGES_APPLIED_'' @ decimal (now w) @ ''.md'')
                in case renameSync (r_filePath request) appliedPath (files h1) of
                     None \<Rightarrow> applyFailed w rid (r_chatJid request) ''ENOENT'' h1
                   | Some fs2 \<Rightarrow>
                       (let h2 = h1\<lparr>files := fs2\<rparr>
                        in [h2,
                            logMsg LInfo ''Host changes applied''
                              (sendMessage w (r_chatJid request)
                                 (''Host changes '' @ backtick @ rid @ backtick
                                    @ '' applied successfully.'' @ [newline, newline]
                                    @ take 500 result)
                                 h2)]))))"

definition handleApprovalStates ::
  "World \<Rightarrow> string \<Rightarrow> bool \<Rightarrow> string \<Rightarrow> Host \<Rightarrow> Host list" where
  "handleApprovalStates w rid appr approvedBy h =
     (case map_of (pendingRequests h) rid of
        None \<Rightarrow> [logMsg LWarn ''Unknown host changes request'' h]
      | Some request \<Rightarrow>
          if r_status request \<noteq> Pending then [logMsg LWarn ''Request already processed'' h]
          else if \<not> appr then
            (let h1 = updateRequest rid
                        (\<lambda>r. r\<lparr>r_approvedBy := Some approvedBy, r_status := Denied\<rparr>) h;
                 deniedPath = groupsPath (r_groupFolder request)
                                (''HOST_CHANGES_DENIED_'' @ decimal (now w) @ ''.md'');
                 h2 = (case renameSync (r_filePath request) deniedPath (files h1) of
                         None \<Rightarrow> h1
                       | Some fs \<Rightarrow> h1\<lparr>files := fs\<rparr>)
             in [h2,
                 logMsg LInfo ''Host changes denied''
                   (sendMessage w (r_chatJid request)
                      (''Host changes request '' @ backtick @ rid @ backtick @ '' denied.'') h2)])
          else
            (let h1 = updateRequest rid
                        (\<lambda>r. r\<lparr>r_approvedBy := Some approvedBy, r_status := Approved\<rparr>) h;
                 h2 = sendMessage w (r_chatJid request)
                        (''Host changes request '' @ backtick @ rid @ backtick
                           @ '' approved. Applying...'') h1
             in h1 # applyApproved w rid request h2))"

definition handleApproval :: "World \<Rightarrow> string \<Rightarrow> bool \<Rightarrow> string \<Rightarrow> Host \<Rightarrow> Host" where
  "handleApproval w rid appr approvedBy h = last (handleApprovalStates w rid appr approvedBy h)"



section \<open>Message router\<close>

definition trim :: "string \<Rightarrow> string" where
  "trim s = rev (dropWhile isSpace (rev (dropWhile isSpace s)))"

definition dquote :: char where
  "dquote = CHR 0x22"

text \<open>
  The chained \<^verbatim>\<open>.replace(/&/g, \<dots>)\<close> calls; \<^verbatim>\<open>&\<close> is replaced first, so the later
  replacements never see an ampersand that an earlier one produced.
\<close>

definition escapeXml :: "string \<Rightarrow> string" where
  "escapeXml s =
     concat (map (\<lambda>c. if c = CHR ''&'' then ''&amp;''
                       else if c = CHR ''<'' then ''&lt;''
                       else if c = CHR ''>'' then ''&gt;''
                       else if c = dquote then ''&quot;''
                       else [c]) s)"

definition escapeXmlNoQuote :: "string \<Rightarrow> string" where
  "escapeXmlNoQuote s =
     concat (map (\<lambda>c. if c = CHR ''&'' then ''&amp;''
                       else if c = CHR ''<'' then ''&lt;''
                       else if c = CHR ''>'' then ''&gt;''
                       else [c]) s)"

fun joinWith :: "string \<Rightarrow> string list \<Rightarrow> string" where
  "joinWith sep [] = []"
| "joinWith sep [x] = x"
| "joinWith sep (x # y # ys) = x @ sep @ joinWith sep (y # ys)"

definition messageLine :: "(string \<Rightarrow> string) \<Rightarrow> string \<Rightarrow> string \<Rightarrow> string \<Rightarrow> string" where
  "messageLine esc sender time content =
     ''<message sender='' @ [dquote] @ esc sender @ [dquote] @ '' time='' @ [dquote] @ time
       @ [dquote] @ ''>'' @ esc content @ ''</message>''"

definition buildPrompt :: "NewMessage list \<Rightarrow> string" where
  "buildPrompt missedMessages =
     ''<messages>'' @ [newline]
       @ joinWith [newline]
           (map (\<lambda>m. messageLine escapeXml (m_sender_name m) (m_timestamp m) (m_content m))
              missedMessages)
       @ [newline] @ ''</messages>''"

text \<open>
  \<^verbatim>\<open>group.trigger && !content.match(new RegExp(`^${group.trigger}\\b`, 'i'))\<close> decides that
  the message is skipped. \<open>triggerPasses\<close> is \<open>Some True\<close> when it is not skipped, and
  \<open>None\<close> when the constructor throws.
\<close>

definition triggerPattern :: "string \<Rightarrow> string" where
  "triggerPattern t = ''^'' @ t @ [CHR 0x5C, CHR ''b'']"

definition triggerPasses :: "World \<Rightarrow> RegisteredGroup \<Rightarrow> string \<Rightarrow> bool option" where
  "triggerPasses w grp content =
     (if truthy (g_trigger grp) then rx w (triggerPattern (str (g_trigger grp))) content
      else Some True)"

text \<open>
  \<open>runAgent\<close>: the snapshots written before the invocation are files for the sandbox, which
  the model does not hold. Every failure of the sandbox, thrown or reported in the output,
  is caught, logged and turned into \<^verbatim>\<open>null\<close> (\<open>None\<close>); \<open>runAgent\<close> returns normally.
\<close>

definition runAgent ::
  "World \<Rightarrow> RegisteredGroup \<Rightarrow> string \<Rightarrow> string \<Rightarrow> Host \<Rightarrow> Host \<times> string option" where
  "runAgent w grp prompt chatJid h =
     (let isMain = (g_folder grp = MAIN_GROUP_FOLDER w);
          sessionId = map_of (sessions h) (g_folder grp);
          input = \<lparr>a_prompt = prompt, a_sessionId = sessionId,
                   a_groupFolder = g_folder grp, a_chatJid = chatJid, a_isMain = isMain\<rparr>;
          h1 = h\<lparr>agentCalls := agentCalls h @ [input]\<rparr>
      in case runContainerAgent w (length (agentCalls h)) input of
           AgentThrows \<Rightarrow> (logMsg LError ''Agent error'' h1, None)
         | AgentReturns output \<Rightarrow>
             (let h2 = (if truthy (o_newSessionId output)
                        then h1\<lparr>sessions := AList.update (g_folder grp)
                                               (str (o_newSessionId output)) (sessions h1)\<rparr>
                        else h1)
              in if o_error output
                 then (logMsg LError ''Container agent error'' h2, None)
                 else (h2, o_result output)))"

definition processMessage :: "World \<Rightarrow> NewMessage \<Rightarrow> Host \<Rightarrow> Host \<times> Outcome" where
  "processMessage w msg h =
     (case map_of (registeredGroups h) (m_chat_jid msg) of
        None \<Rightarrow> (h, Returned)
      | Some grp \<Rightarrow>
          (let content = trim (m_content msg);
               approval = checkApprovalMessage content (m_chat_jid msg) h
           in if isApproval approval
              then (handleApproval w (requestId approval) (approved approval)
                      (m_sender_name msg) h, Returned)
              else
                (case triggerPasses w grp content of
                   None \<Rightarrow> (h, Thrown)
                 | Some False \<Rightarrow> (h, Returned)
                 | Some True \<Rightarrow>
                     (let sinceTimestamp = str (map_of (lastAgentTimestamp h) (m_chat_jid msg));
                          missedMessages = getMessagesSince (m_chat_jid msg) sinceTimestamp h;
                          prompt = buildPrompt missedMessages
                      in if prompt = [] then (h, Returned)
                         else
                           (let h1 = setTyping (m_chat_jid msg) True
                                       (logMsg LInfo ''Processing message'' h)
                            in case runAgent w grp prompt (m_chat_jid msg) h1 of
                                 (h2, response) \<Rightarrow>
                                   (let h3 = setTyping (m_chat_jid msg) False h2
                                    in if truthy response
                                       then (sendMessage w (m_chat_jid msg) (str response)
                                               (h3\<lparr>lastAgentTimestamp :=
                                                     AList.update (m_chat_jid msg) (m_timestamp msg)
                                                       (lastAgentTimestamp h3)\<rparr>),
                                             Returned)
                                       else (h3, Returned)))))))"

text \<open>
  The \<^verbatim>\<open>for (const msg of messages)\<close> loop of \<open>startMessageLoop\<close>: the watermark is set after
  \<open>processMessage\<close> returns; a throw ends the batch. \<open>saveState\<close> persists the variables
  and changes nothing in the model.
\<close>

fun processBatch :: "World \<Rightarrow> NewMessage list \<Rightarrow> Host \<Rightarrow> Host" where
  "processBatch w [] h = h"
| "processBatch w (msg # rest) h =
     (case processMessage w msg h of
        (h1, Returned) \<Rightarrow> processBatch w rest (h1\<lparr>lastTimestamp := m_timestamp msg\<rparr>)
      | (h1, Thrown) \<Rightarrow> logMsg LError ''Error processing message, will retry'' h1)"

text \<open>One pass of the \<^verbatim>\<open>while (true)\<close> loop, between two sleeps.\<close>

definition messageLoopCycle :: "World \<Rightarrow> Host \<Rightarrow> Host" where
  "messageLoopCycle w h =
     (let jids = map fst (registeredGroups h);
          msgs = getNewMessages w jids (lastTimestamp h) h
      in processBatch w msgs (if msgs \<noteq> [] then logMsg LInfo ''New messages'' h else h))"



section \<open>Gateway channel\<close>

record DiscordMessage =
  dm_authorBot :: bool
  dm_guildId :: "string option"
  dm_channelId :: string
  dm_authorId :: string
  dm_username :: string
  dm_content :: "string option"

text \<open>
  The \<^verbatim>\<open>MessageCreate\<close> handler of \<open>startDiscordBot\<close>. A direct message from an unknown
  user registers a group with the empty trigger; the agent is invoked directly, with every
  failure caught. The subscription to the sender's direct-message channel is a call to the
  gateway and leaves the state alone; the text written to \<^verbatim>\<open>CLAUDE.md\<close> is abbreviated here
  and in the mailbox channel.
\<close>

definition onDiscordMessage :: "World \<Rightarrow> DiscordMessage \<Rightarrow> Host \<Rightarrow> Host \<times> Outcome" where
  "onDiscordMessage w message h =
     (if dm_authorBot message then (h, Returned)
      else
        (let discordJid = (if truthy (dm_guildId message)
                           then ''discord:'' @ dm_channelId message
                           else ''discord:'' @ dm_authorId message);
             known = map_of (registeredGroups h) discordJid
         in if known = None \<and> truthy (dm_guildId message) then (h, Returned)
            else
              (let grp = (case known of
                            Some g \<Rightarrow> g
                          | None \<Rightarrow>
                              \<lparr>g_name = ''DM: '' @ dm_username message,
                               g_folder = ''discord-dm-'' @ dm_authorId message,
                               g_trigger = Some [], g_added_at = nowISO w,
                               g_containerConfig = None\<rparr>);
                   h1 = (case known of
                           Some g \<Rightarrow> h
                         | None \<Rightarrow>
                             (let h0 = logMsg LInfo ''Auto-registered Discord DM''
                                         (h\<lparr>registeredGroups :=
                                              AList.update discordJid grp (registeredGroups h)\<rparr>)
                              in h0\<lparr>files :=
                                      AList.update (groupsPath (g_folder grp) ''CLAUDE.md'')
                                        (''# Discord DM with '' @ dm_username message)
                                        (files h0)\<rparr>));
                   h2 = logMsg LInfo ''Discord message received'' h1;
                   content = str (dm_content message)
               in case triggerPasses w grp content of
                    None \<Rightarrow> (h2, Thrown)
                  | Some False \<Rightarrow> (h2, Returned)
                  | Some True \<Rightarrow>
                      (let prompt = ''<messages>'' @ [newline]
                                      @ messageLine escapeXmlNoQuote (dm_username message)
                                          (nowISO w) content
                                      @ [newline] @ ''</messages>'';
                           input = \<lparr>a_prompt = prompt,
                                    a_sessionId = map_of (sessions h2) (g_folder grp),
                                    a_groupFolder = g_folder grp, a_chatJid = discordJid,
                                    a_isMain = False\<rparr>;
                           h3 = h2\<lparr>agentCalls := agentCalls h2 @ [input]\<rparr>
                       in case runContainerAgent w (length (agentCalls h2)) input of
                            AgentThrows \<Rightarrow>
                              (logMsg LError ''Discord message handling failed'' h3, Returned)
                          | AgentReturns output \<Rightarrow>
                              (let h4 = (if truthy (o_newSessionId output)
                                         then h3\<lparr>sessions :=
                                                  AList.update (g_folder grp)
                                                    (str (o_newSessionId output)) (sessions h3)\<rparr>
                                         else h3)
                               in if \<not> o_error output \<and> truthy (o_result output)
                                  then (sendMessage w discordJid (str (o_result output)) h4,
                                        Returned)
                                  else if o_error output
                                  then (logMsg LError ''Discord agent error'' h4, Returned)
                                  else (h4, Returned))))))"


section \<open>Mailbox channel\<close>















section \<open>Sample worlds and states\<close>

text \<open>
  Concrete parameters for evaluating the model. \<open>literalRx\<close> is the behaviour of
  \<^verbatim>\<open>subject.match(new RegExp(src, 'i'))\<close> on the patterns \<^verbatim>\<open>^t\b\<close> whose \<open>t\<close> consists of
  letters, digits and \<^verbatim>\<open>@\<close> only: \<open>t\<close> is a prefix of the subject up to letter case, and
  the position after it is a word boundary.
\<close>

definition isWordChar :: "char \<Rightarrow> bool" where
  "isWordChar c =
     ((CHR ''a'' \<le> c \<and> c \<le> CHR ''z'') \<or> (CHR ''A'' \<le> c \<and> c \<le> CHR ''Z'') \<or> isDigit c
        \<or> c = CHR ''_'')"

definition wordBoundaryAt :: "string \<Rightarrow> nat \<Rightarrow> bool" where
  "wordBoundaryAt s n =
     ((0 < n \<and> n \<le> length s \<and> isWordChar (s ! (n - 1))) \<noteq> (n < length s \<and> isWordChar (s ! n)))"

definition literalRx :: "string \<Rightarrow> string \<Rightarrow> bool option" where
  "literalRx src subject =
     (let t = take (length src - 3) (drop 1 src)
      in Some (startsWith (toLowerCase subject) (toLowerCase t) \<and> wordBoundaryAt subject (length t)))"

definition okOutput :: ContainerOutput where
  "okOutput = \<lparr>o_error = False, o_result = Some ''ok'', o_newSessionId = None\<rparr>"

definition errorOutput :: ContainerOutput where
  "errorOutput = \<lparr>o_error = True, o_result = None, o_newSessionId = None\<rparr>"

definition emptyData :: IpcData where
  "emptyData =
     \<lparr>d_type = None, d_taskId = None, d_prompt = None, d_schedule_type = None,
      d_schedule_value = None, d_context_mode = None, d_groupFolder = None, d_chatJid = None,
      d_jid = None, d_name = None, d_folder = None, d_trigger = None,
      d_containerConfig = None, d_userId = None, d_text = None, d_duration = None\<rparr>"

definition demoWorld :: World where
  "demoWorld =
     \<lparr>rx = literalRx,
      runContainerAgent = (\<lambda>n input. AgentReturns okOutput),
      deliver = (\<lambda>jid t. True),
      claude = (\<lambda>plan fs. (Inr ''done'', fs)),
      gmailSend = (\<lambda>args. True),
      jsonParse = (\<lambda>content. JsonSyntaxError),
      now = 42,
      nowISO = ''2026-01-01T00:00:00.000Z'',
      toISO = (\<lambda>ms. Some ''2026-01-01T00:01:00.000Z''),
      parseDate = (\<lambda>v. None),
      cronNext = (\<lambda>v. None),
      random36 = ''abc123'',
      batchLimit = 100,
      MAIN_GROUP_FOLDER = ''main'',
      replyPrefix = None,
      contextMode = ThreadMode\<rparr>"

definition emptyHost :: Host where
  "emptyHost =
     \<lparr>lastTimestamp = [], sessions = [], registeredGroups = [], lastAgentTimestamp = [],
      pendingRequests = [], messages = [], tasks = [], processedEmails = [], files = [],
      outbox = [], typing = [], mailAttempts = [], mailSent = [], agentCalls = [], logs = []\<rparr>"

definition demoGroup :: "string \<Rightarrow> string option \<Rightarrow> RegisteredGroup" where
  "demoGroup folder trig =
     \<lparr>g_name = folder, g_folder = folder, g_trigger = trig,
      g_added_at = ''2026-01-01T00:00:00.000Z'', g_containerConfig = None\<rparr>"

definition demoTask :: "string \<Rightarrow> string \<Rightarrow> string \<Rightarrow> Task" where
  "demoTask tid folder jid =
     \<lparr>t_id = tid, t_group_folder = folder, t_chat_jid = jid, t_prompt = ''check mail'',
      t_schedule_type = ''interval'', t_schedule_value = ''60000'',
      t_context_mode = ''isolated'', t_next_run = None, t_status = Active,
      t_created_at = ''2026-01-01T00:00:00.000Z''\<rparr>"




definition twoGroupsHost :: Host where
  "twoGroupsHost =
     emptyHost\<lparr>registeredGroups :=
       [(''c2@g.us'', demoGroup ''g2'' (Some ''@Andy'')), (''c3@g.us'', demoGroup ''g3'' (Some ''@Andy''))],
       tasks := [demoTask ''t1'' ''g3'' ''c3@g.us'']\<rparr>"

definition scheduleRequest :: IpcData where
  "scheduleRequest =
     emptyData\<lparr>d_type := Some ''schedule_task'', d_prompt := Some ''water the plants'',
       d_schedule_type := Some ''interval'', d_schedule_value := Some ''60000'',
       d_groupFolder := Some ''g3'', d_chatJid := Some ''spoofed@g.us''\<rparr>"

definition pauseRequest :: IpcData where
  "pauseRequest = emptyData\<lparr>d_type := Some ''pause_task'', d_taskId := Some ''t1''\<rparr>"

definition pauseWorld :: World where
  "pauseWorld = demoWorld\<lparr>jsonParse := (\<lambda>content. JsonObject pauseRequest)\<rparr>"

definition pauseHost :: Host where
  "pauseHost = twoGroupsHost\<lparr>files := [(tasksDir ''g2'' @ [''1-ab.json''], ''pause t1'')]\<rparr>"





definition statusOf :: "string \<Rightarrow> Host \<Rightarrow> RequestStatus option" where
  "statusOf rid h = map_option r_status (map_of (pendingRequests h) rid)"

definition allowedTransition :: "RequestStatus \<Rightarrow> RequestStatus \<Rightarrow> bool" where
  "allowedTransition s s' =
     ((s, s') \<in> set [(Pending, Approved), (Approved, Applied), (Approved, Failed), (Pending, Denied)])"

fun oneWay :: "RequestStatus option list \<Rightarrow> bool" where
  "oneWay [] = True"
| "oneWay [s] = True"
| "oneWay (s # s' # rest) =
     ((s' = s \<or> (case (s, s') of (Some a, Some b) \<Rightarrow> allowedTransition a b | _ \<Rightarrow> False))
      \<and> oneWay (s' # rest))"

definition planRequest :: HostModificationRequest where
  "planRequest =
     \<lparr>r_id = ''hc-1'', r_groupFolder = ''g3'', r_chatJid = ''c3@g.us'',
      r_summary = ''Add a channel'',
      r_filePath = groupsPath ''g3'' ''PENDING_HOST_CHANGES.notified.md'',
      r_timestamp = ''2026-01-01T00:00:00.000Z'', r_status = Pending,
      r_approvedBy = None, r_error = None\<rparr>"

definition approvalHost :: Host where
  "approvalHost =
     twoGroupsHost\<lparr>pendingRequests := [(''hc-1'', planRequest)],
       files := [(groupsPath ''g3'' ''PENDING_HOST_CHANGES.notified.md'', ''## Summary'')]\<rparr>"

definition planRemovingWorld :: World where
  "planRemovingWorld = demoWorld\<lparr>claude := (\<lambda>plan fs. (Inr ''done'', []))\<rparr>"




definition agentInput :: "World \<Rightarrow> RegisteredGroup \<Rightarrow> NewMessage \<Rightarrow> Host \<Rightarrow> AgentInput" where
  "agentInput w grp msg h =
     \<lparr>a_prompt = buildPrompt (getMessagesSince (m_chat_jid msg)
                                 (str (map_of (lastAgentTimestamp h) (m_chat_jid msg))) h),
      a_sessionId = map_of (sessions h) (g_folder grp),
      a_groupFolder = g_folder grp, a_chatJid = m_chat_jid msg,
      a_isMain = (g_folder grp = MAIN_GROUP_FOLDER w)\<rparr>"

definition autoHost :: Host where
  "autoHost = emptyHost\<lparr>registeredGroups := [(''c1@g.us'', demoGroup ''g1'' (Some []))]\<rparr>"

definition chatMessage :: "string \<Rightarrow> string \<Rightarrow> string \<Rightarrow> NewMessage" where
  "chatMessage jid content time =
     \<lparr>m_id = ''m-'' @ time, m_chat_jid = jid, m_sender_name = ''Maya'', m_content = content,
      m_timestamp = time\<rparr>"



definition discordJidOf :: "DiscordMessage \<Rightarrow> string" where
  "discordJidOf message =
     (if truthy (dm_guildId message) then ''discord:'' @ dm_channelId message
      else ''discord:'' @ dm_authorId message)"

definition botHost :: Host where
  "botHost =
     emptyHost\<lparr>registeredGroups :=
       [(''g1'', demoGroup ''g1'' (Some ''@bot'')),
        (''discord:777'', demoGroup ''discord-dm-777'' (Some []))]\<rparr>"

definition dmMessage :: DiscordMessage where
  "dmMessage =
     \<lparr>dm_authorBot = False, dm_guildId = None, dm_channelId = ''555'', dm_authorId = ''777'',
      dm_username = ''maya'', dm_content = Some ''good morning''\<rparr>"

definition failingAgentWorld :: World where
  "failingAgentWorld = demoWorld\<lparr>runContainerAgent := (\<lambda>n input. AgentReturns errorOutput)\<rparr>"

definition inboxHost :: Host where
  "inboxHost =
     autoHost\<lparr>messages := [chatMessage ''c1@g.us'' ''please summarise'' ''2026-01-01T10:00:00.000Z'']\<rparr>"

definition agentFailed :: "AgentResult \<Rightarrow> bool" where
  "agentFailed res = (case res of AgentThrows \<Rightarrow> True | AgentReturns output \<Rightarrow> o_error output)"





section \<open>Properties of the chunker\<close>

lemma lastIndexAcc_absent: "c \<notin> set xs \<Longrightarrow> lastIndexAcc xs c i acc = acc"
  by (induction xs arbitrary: i acc) auto

lemma lastIndexAcc_present:
  "c \<in> set xs \<Longrightarrow>
     \<exists>j<length xs. lastIndexAcc xs c i acc = int (i + j) \<and> xs ! j = c \<and>
        (\<forall>k. j < k \<and> k < length xs \<longrightarrow> xs ! k \<noteq> c)"
proof (induction xs arbitrary: i acc)
  case Nil
  then show ?case by simp
next
  case (Cons x xs)
  show ?case
  proof (cases "c \<in> set xs")
    case True
    from Cons.IH [OF True, of "Suc i" "if x = c then int i else acc"]
    obtain j where j: "j < length xs"
      "lastIndexAcc xs c (Suc i) (if x = c then int i else acc) = int (Suc i + j)"
      "xs ! j = c" "\<forall>k. j < k \<and> k < length xs \<longrightarrow> xs ! k \<noteq> c"
      by blast
    have "\<forall>k. Suc j < k \<and> k < length (x # xs) \<longrightarrow> (x # xs) ! k \<noteq> c"
    proof (intro allI impI)
      fix k assume k: "Suc j < k \<and> k < length (x # xs)"
      then obtain k' where "k = Suc k'" by (cases k) auto
      with k j(4) show "(x # xs) ! k \<noteq> c" by auto
    qed
    with j show ?thesis
      by (intro exI [of _ "Suc j"]) simp
  next
    case False
    with Cons.prems have xc: "x = c" by simp
    have "\<forall>k. 0 < k \<and> k < length (x # xs) \<longrightarrow> (x # xs) ! k \<noteq> c"
    proof (intro allI impI)
      fix k assume k: "0 < k \<and> k < length (x # xs)"
      then obtain k' where "k = Suc k'" by (cases k) auto
      with k False show "(x # xs) ! k \<noteq> c" by (auto simp: in_set_conv_nth)
    qed
    with xc False show ?thesis
      by (intro exI [of _ 0]) (simp add: lastIndexAcc_absent)
  qed
qed

lemma lastIndexOf_absent:
  "(\<forall>j. j \<le> n \<and> j < length s \<longrightarrow> s ! j \<noteq> c) \<Longrightarrow> lastIndexOf s c n = - 1"
proof -
  assume a: "\<forall>j. j \<le> n \<and> j < length s \<longrightarrow> s ! j \<noteq> c"
  have "c \<notin> set (take (Suc n) s)"
    using a by (auto simp: in_set_conv_nth)
  then show ?thesis by (simp add: lastIndexOf_def lastIndexAcc_absent)
qed

lemma lastIndexOf_present:
  assumes "j \<le> n" "j < length s" "s ! j = c"
  shows "\<exists>k. lastIndexOf s c n = int k \<and> k \<le> n \<and> k < length s \<and> s ! k = c \<and>
           (\<forall>i. k < i \<and> i \<le> n \<and> i < length s \<longrightarrow> s ! i \<noteq> c)"
proof -
  have "c \<in> set (take (Suc n) s)"
    using assms by (auto simp: in_set_conv_nth intro!: exI [of _ j])
  from lastIndexAcc_present [OF this, of 0 "- 1"]
  obtain k where k: "k < length (take (Suc n) s)"
    "lastIndexAcc (take (Suc n) s) c 0 (- 1) = int k" "take (Suc n) s ! k = c"
    "\<forall>i. k < i \<and> i < length (take (Suc n) s) \<longrightarrow> take (Suc n) s ! i \<noteq> c"
    by auto
  have "\<forall>i. k < i \<and> i \<le> n \<and> i < length s \<longrightarrow> s ! i \<noteq> c"
  proof (intro allI impI)
    fix i assume i: "k < i \<and> i \<le> n \<and> i < length s"
    then have "take (Suc n) s ! i \<noteq> c" using k(4) by simp
    with i show "s ! i \<noteq> c" by simp
  qed
  with k show ?thesis
    by (intro exI [of _ k]) (simp add: lastIndexOf_def)
qed


lemma lastIndexOf_Max:
  "lastIndexOf s c n =
     (if \<exists>j. j \<le> n \<and> j < length s \<and> s ! j = c
      then int (Max {j. j \<le> n \<and> j < length s \<and> s ! j = c}) else - 1)"
proof (cases "\<exists>j. j \<le> n \<and> j < length s \<and> s ! j = c")
  case False
  then show ?thesis using lastIndexOf_absent [of n s c] by auto
next
  case True
  then obtain j where "j \<le> n" "j < length s" "s ! j = c" by blast
  from lastIndexOf_present [OF this]
  obtain k where k: "lastIndexOf s c n = int k" "k \<le> n" "k < length s" "s ! k = c"
    "\<forall>i. k < i \<and> i \<le> n \<and> i < length s \<longrightarrow> s ! i \<noteq> c" by blast
  let ?S = "{j. j \<le> n \<and> j < length s \<and> s ! j = c}"
  have fin: "finite ?S" by simp
  have "Max ?S = k"
  proof (rule Max_eqI [OF fin])
    show "k \<in> ?S" using k by simp
  next
    fix y assume "y \<in> ?S"
    then show "y \<le> k" using k(5) by (metis (mono_tags, lifting) mem_Collect_eq not_le)
  qed
  with True k(1) show ?thesis by simp
qed

lemma lastIndexOf_boundary:
  "(if boundaryIndices c s \<noteq> {} then lastIndexOf s c DISCORD_MAX_LENGTH = int (Max (boundaryIndices c s))
    else lastIndexOf s c DISCORD_MAX_LENGTH \<le> 0)"
proof (cases "boundaryIndices c s = {}")
  case True
  have "lastIndexOf s c DISCORD_MAX_LENGTH \<le> 0"
  proof (cases "\<exists>j. j \<le> DISCORD_MAX_LENGTH \<and> j < length s \<and> s ! j = c")
    case False
    then show ?thesis using lastIndexOf_absent [of DISCORD_MAX_LENGTH s c] by auto
  next
    case ex: True
    then obtain j where "j \<le> DISCORD_MAX_LENGTH" "j < length s" "s ! j = c" by blast
    from lastIndexOf_present [OF this]
    obtain k where k: "lastIndexOf s c DISCORD_MAX_LENGTH = int k" "k \<le> DISCORD_MAX_LENGTH"
      "k < length s" "s ! k = c" by blast
    have "k \<notin> boundaryIndices c s" using True by simp
    with k have "k = 0" by (simp add: boundaryIndices_def)
    with k(1) show ?thesis by simp
  qed
  with True show ?thesis by simp
next
  case False
  then obtain j where j: "j \<in> boundaryIndices c s" by blast
  let ?S = "{j. j \<le> DISCORD_MAX_LENGTH \<and> j < length s \<and> s ! j = c}"
  have ex: "\<exists>j. j \<le> DISCORD_MAX_LENGTH \<and> j < length s \<and> s ! j = c"
    using j by (auto simp: boundaryIndices_def)
  have fin: "finite ?S" "finite (boundaryIndices c s)" by (simp_all add: boundaryIndices_def)
  have sub: "boundaryIndices c s \<subseteq> ?S" by (auto simp: boundaryIndices_def)
  have "Max ?S = Max (boundaryIndices c s)"
  proof (rule Max_eqI [OF fin(1)])
    show "Max (boundaryIndices c s) \<in> ?S" using Max_in [OF fin(2) False] sub by blast
  next
    fix y assume y: "y \<in> ?S"
    show "y \<le> Max (boundaryIndices c s)"
    proof (cases "y = 0")
      case True then show ?thesis by simp
    next
      case False
      with y have "y \<in> boundaryIndices c s" by (simp add: boundaryIndices_def)
      then show ?thesis using fin(2) by simp
    qed
  qed
  with ex False show ?thesis by (simp add: lastIndexOf_Max)
qed

lemma boundary_Max_pos:
  "boundaryIndices c s \<noteq> {} \<Longrightarrow> 0 < Max (boundaryIndices c s)"
proof -
  assume ne: "boundaryIndices c s \<noteq> {}"
  have "finite (boundaryIndices c s)" by (simp add: boundaryIndices_def)
  from Max_in [OF this ne] show ?thesis by (simp add: boundaryIndices_def)
qed

lemma chooseSplit_preference:
  "chooseSplit r =
     (if boundaryIndices newline r \<noteq> {} then int (Max (boundaryIndices newline r))
      else if boundaryIndices space r \<noteq> {} then int (Max (boundaryIndices space r))
      else int DISCORD_MAX_LENGTH)"
proof (cases "boundaryIndices newline r \<noteq> {}")
  case True
  then have "lastIndexOf r newline DISCORD_MAX_LENGTH = int (Max (boundaryIndices newline r))"
    using lastIndexOf_boundary [of newline r] by simp
  moreover have "0 < Max (boundaryIndices newline r)" using True by (rule boundary_Max_pos)
  ultimately show ?thesis using True by (simp add: chooseSplit_def Let_def)
next
  case nl: False
  then have n0: "lastIndexOf r newline DISCORD_MAX_LENGTH \<le> 0"
    using lastIndexOf_boundary [of newline r] by simp
  show ?thesis
  proof (cases "boundaryIndices space r \<noteq> {}")
    case True
    then have "lastIndexOf r space DISCORD_MAX_LENGTH = int (Max (boundaryIndices space r))"
      using lastIndexOf_boundary [of space r] by simp
    moreover have "0 < Max (boundaryIndices space r)" using True by (rule boundary_Max_pos)
    ultimately show ?thesis using True nl n0 by (simp add: chooseSplit_def Let_def)
  next
    case False
    then have "lastIndexOf r space DISCORD_MAX_LENGTH \<le> 0"
      using lastIndexOf_boundary [of space r] by simp
    then show ?thesis using False nl n0 by (simp add: chooseSplit_def Let_def)
  qed
qed

lemma strip_take_drop:
  "take (length xs - length (stripLeadingNewline xs)) xs @ stripLeadingNewline xs = xs"
  by (cases xs) auto

lemma strip_removed:
  "take (length xs - length (stripLeadingNewline xs)) xs =
     (if xs \<noteq> [] \<and> hd xs = newline then [newline] else [])"
  by (cases xs) auto

lemma splitLoop_concat: "concat (map (\<lambda>(c, sep). c @ sep) (splitLoop t)) = t"
proof (induction t rule: splitLoop.induct)
  case (1 remaining)
  show ?case
  proof (cases "length remaining > 0 \<and> \<not> length remaining \<le> DISCORD_MAX_LENGTH")
    case False
    then show ?thesis by (subst splitLoop.simps) auto
  next
    case True
    define k where "k = nat (chooseSplit remaining)"
    define rest where "rest = drop k remaining"
    define rem' where "rem' = stripLeadingNewline rest"
    have IH: "concat (map (\<lambda>(c, sep). c @ sep) (splitLoop rem')) = rem'"
      using "1.IH" [of k rest rem'] True by (simp add: k_def rest_def rem'_def)
    have "splitLoop remaining =
            (take k remaining, take (length rest - length rem') rest) # splitLoop rem'"
      using True by (subst splitLoop.simps) (simp add: Let_def k_def rest_def rem'_def)
    then have "concat (map (\<lambda>(c, sep). c @ sep) (splitLoop remaining)) =
            take k remaining @ (take (length rest - length rem') rest @ rem')"
      using IH by simp
    also have "\<dots> = take k remaining @ rest"
      unfolding rem'_def by (simp only: strip_take_drop)
    also have "\<dots> = remaining" by (simp add: rest_def)
    finally show ?thesis .
  qed
qed

lemma splitLoop_chunk_bounds:
  "(c, sep) \<in> set (splitLoop t) \<Longrightarrow>
     0 < length c \<and> length c \<le> DISCORD_MAX_LENGTH \<and> (sep = [] \<or> sep = [newline])"
proof (induction t rule: splitLoop.induct)
  case (1 remaining)
  show ?case
  proof (cases "length remaining > 0 \<and> \<not> length remaining \<le> DISCORD_MAX_LENGTH")
    case False
    with "1.prems" show ?thesis by (subst (asm) splitLoop.simps) (auto split: if_splits)
  next
    case True
    define k where "k = nat (chooseSplit remaining)"
    define rest where "rest = drop k remaining"
    define rem' where "rem' = stripLeadingNewline rest"
    have eq: "splitLoop remaining =
            (take k remaining, take (length rest - length rem') rest) # splitLoop rem'"
      using True by (subst splitLoop.simps) (simp add: Let_def k_def rest_def rem'_def)
    have kr: "0 < k" "k \<le> DISCORD_MAX_LENGTH"
      using chooseSplit_range [of remaining] unfolding k_def by linarith+
    from "1.prems" eq consider
      (hd) "c = take k remaining" "sep = take (length rest - length rem') rest"
      | (tl) "(c, sep) \<in> set (splitLoop rem')" by auto
    then show ?thesis
    proof cases
      case hd
      have "sep = [] \<or> sep = [newline]"
        unfolding hd(2) rem'_def by (simp only: strip_removed split: if_splits) simp
      with hd(1) kr True show ?thesis by simp
    next
      case tl
      then show ?thesis
        using "1.IH" [of k rest rem'] True by (simp add: k_def rest_def rem'_def)
    qed
  qed
qed


lemma splitLoop_length: "length (splitLoop t) \<le> length t"
proof (induction t rule: splitLoop.induct)
  case (1 remaining)
  show ?case
  proof (cases "length remaining > 0 \<and> \<not> length remaining \<le> DISCORD_MAX_LENGTH")
    case False
    then show ?thesis by (subst splitLoop.simps) (auto simp: Suc_le_eq)
  next
    case True
    define k where "k = nat (chooseSplit remaining)"
    define rest where "rest = drop k remaining"
    define rem' where "rem' = stripLeadingNewline rest"
    have eq: "splitLoop remaining =
            (take k remaining, take (length rest - length rem') rest) # splitLoop rem'"
      using True by (subst splitLoop.simps) (simp add: Let_def k_def rest_def rem'_def)
    have kr: "0 < k" "k < length remaining"
      using chooseSplit_range [of remaining] True unfolding k_def by linarith+
    have "length (splitLoop rem') \<le> length rem'"
      using "1.IH" [of k rest rem'] True by (simp add: k_def rest_def rem'_def)
    also have "\<dots> \<le> length rest" unfolding rem'_def by (rule length_stripLeadingNewline)
    also have "\<dots> = length remaining - k" by (simp add: rest_def)
    finally show ?thesis using eq kr True by simp
  qed
qed

lemma splitLoop_step:
  assumes long: "DISCORD_MAX_LENGTH < length r"
  defines "k \<equiv> (if boundaryIndices newline r \<noteq> {} then Max (boundaryIndices newline r)
                 else if boundaryIndices space r \<noteq> {} then Max (boundaryIndices space r)
                 else DISCORD_MAX_LENGTH)"
  defines "sep \<equiv> (if boundaryIndices newline r \<noteq> {} then [newline] else [])"
  shows "splitLoop r = (take k r, sep) # splitLoop (drop (k + length sep) r)"
proof -
  have k: "nat (chooseSplit r) = k" by (simp add: chooseSplit_preference k_def)
  have kr: "0 < k" "k \<le> DISCORD_MAX_LENGTH"
    using chooseSplit_range [of r] k by linarith+
  then have klt: "k < length r" using long by simp
  have fin: "finite (boundaryIndices newline r)" "finite (boundaryIndices space r)"
    by (simp_all add: boundaryIndices_def)
  have nl: "r ! k = newline \<longleftrightarrow> boundaryIndices newline r \<noteq> {}"
  proof
    assume "r ! k = newline"
    with kr klt have "k \<in> boundaryIndices newline r" by (simp add: boundaryIndices_def)
    then show "boundaryIndices newline r \<noteq> {}" by blast
  next
    assume ne: "boundaryIndices newline r \<noteq> {}"
    then have "k \<in> boundaryIndices newline r" using Max_in [OF fin(1) ne] by (simp add: k_def)
    then show "r ! k = newline" by (simp add: boundaryIndices_def)
  qed
  have dr: "drop k r = r ! k # drop (Suc k) r" using klt by (simp add: Cons_nth_drop_Suc)
  have strip: "stripLeadingNewline (drop k r) = drop (k + length sep) r"
    using nl by (subst dr) (auto simp: sep_def dr)
  have removed: "take (length (drop k r) - length (stripLeadingNewline (drop k r))) (drop k r) = sep"
    unfolding strip_removed using nl klt by (simp add: sep_def hd_drop_conv_nth)
  have ne: "r \<noteq> []" using long by auto
  show ?thesis
    using long removed strip ne by (subst splitLoop.simps) (simp add: Let_def k)
qed

text \<open>
  Claim C9. For every outbound text \<open>t\<close>: every chunk is at most \<open>DISCORD_MAX_LENGTH\<close> long;
  a text within the limit is a single chunk; for a longer text the loop runs at most
  \<open>length t\<close> times, its chunks are not empty, and the chunks put back together with what
  each iteration discarded (nothing, or one newline) give \<open>t\<close> again. In every iteration on
  a remaining text \<open>r\<close> longer than the limit, the split index is the last newline among the
  positions \<open>1 \<dots> DISCORD_MAX_LENGTH\<close> if there is one, else the last space among them if
  there is one, else \<open>DISCORD_MAX_LENGTH\<close>; the newline is discarded exactly when the split
  is at a newline.
\<close>

theorem splitDiscordMessage_chunking:
  "(\<forall>c \<in> set (splitDiscordMessage t). length c \<le> DISCORD_MAX_LENGTH)
   \<and> (length t \<le> DISCORD_MAX_LENGTH \<longrightarrow> splitDiscordMessage t = [t])
   \<and> (DISCORD_MAX_LENGTH < length t \<longrightarrow>
        splitDiscordMessage t = map fst (splitLoop t)
        \<and> length (splitLoop t) \<le> length t
        \<and> concat (map (\<lambda>(c, sep). c @ sep) (splitLoop t)) = t
        \<and> (\<forall>(c, sep) \<in> set (splitLoop t). c \<noteq> [] \<and> (sep = [] \<or> sep = [newline])))
   \<and> (DISCORD_MAX_LENGTH < length r \<longrightarrow>
        (let k = (if boundaryIndices newline r \<noteq> {} then Max (boundaryIndices newline r)
                  else if boundaryIndices space r \<noteq> {} then Max (boundaryIndices space r)
                  else DISCORD_MAX_LENGTH);
             sep = (if boundaryIndices newline r \<noteq> {} then [newline] else [])
         in splitLoop r = (take k r, sep) # splitLoop (drop (k + length sep) r)))"
proof (intro conjI impI)
  show "\<forall>c \<in> set (splitDiscordMessage t). length c \<le> DISCORD_MAX_LENGTH"
    using splitLoop_chunk_bounds [of _ _ t]
    by (auto simp: splitDiscordMessage_def)
next
  assume "length t \<le> DISCORD_MAX_LENGTH"
  then show "splitDiscordMessage t = [t]" by (simp add: splitDiscordMessage_def)
next
  assume "DISCORD_MAX_LENGTH < length t"
  then show "splitDiscordMessage t = map fst (splitLoop t)"
    by (simp add: splitDiscordMessage_def)
next
  show "length (splitLoop t) \<le> length t" by (rule splitLoop_length)
next
  show "concat (map (\<lambda>(c, sep). c @ sep) (splitLoop t)) = t" by (rule splitLoop_concat)
next
  show "\<forall>(c, sep) \<in> set (splitLoop t). c \<noteq> [] \<and> (sep = [] \<or> sep = [newline])"
    using splitLoop_chunk_bounds [of _ _ t] by fastforce
next
  assume "DISCORD_MAX_LENGTH < length r"
  from splitLoop_step [OF this] show
    "let k = (if boundaryIndices newline r \<noteq> {} then Max (boundaryIndices newline r)
                  else if boundaryIndices space r \<noteq> {} then Max (boundaryIndices space r)
                  else DISCORD_MAX_LENGTH);
             sep = (if boundaryIndices newline r \<noteq> {} then [newline] else [])
         in splitLoop r = (take k r, sep) # splitLoop (drop (k + length sep) r)"
    by (simp add: Let_def)
qed

lemma longText_boundary: "boundaryIndices newline longText = {1900}"
proof -
  have "\<And>j. j < 1902 \<Longrightarrow> longText ! j = newline \<longleftrightarrow> j = 1900"
    by (auto simp: longText_def nth_append nth_Cons' newline_def)
  then show ?thesis
    by (auto simp: boundaryIndices_def DISCORD_MAX_LENGTH_def longText_def nth_append nth_Cons' newline_def)
qed

text \<open>
  The theorem at a text of 1902 characters whose only boundary is a newline at index 1900.
\<close>

theorem splitDiscordMessage_chunking_witness:
  "DISCORD_MAX_LENGTH < length longText
   \<and> splitDiscordMessage longText = [replicate 1900 (CHR ''a''), ''b'']
   \<and> length (replicate 1900 (CHR ''a'')) \<le> DISCORD_MAX_LENGTH
   \<and> concat [replicate 1900 (CHR ''a''), [newline], ''b''] = longText"
proof -
  have long: "DISCORD_MAX_LENGTH < length longText"
    by (simp add: longText_def DISCORD_MAX_LENGTH_def)
  have short: "splitLoop ''b'' = [(''b'', [])]"
    by (subst splitLoop.simps) (simp add: DISCORD_MAX_LENGTH_def)
  have "splitLoop longText = [(replicate 1900 (CHR ''a''), [newline]), (''b'', [])]"
    using splitDiscordMessage_chunking [of longText longText] long short
    by (simp add: longText_boundary Let_def) (simp add: longText_def)
  then show ?thesis
    using splitDiscordMessage_chunking [of longText longText] long
    by (simp add: longText_def DISCORD_MAX_LENGTH_def)
qed


section \<open>Properties of the IPC command bus\<close>

lemma logMsg_frame [simp]:
  "lastTimestamp (logMsg l m h) = lastTimestamp h"
  "sessions (logMsg l m h) = sessions h"
  "registeredGroups (logMsg l m h) = registeredGroups h"
  "lastAgentTimestamp (logMsg l m h) = lastAgentTimestamp h"
  "pendingRequests (logMsg l m h) = pendingRequests h"
  "messages (logMsg l m h) = messages h"
  "tasks (logMsg l m h) = tasks h"
  "processedEmails (logMsg l m h) = processedEmails h"
  "files (logMsg l m h) = files h"
  "outbox (logMsg l m h) = outbox h"
  "typing (logMsg l m h) = typing h"
  "mailAttempts (logMsg l m h) = mailAttempts h"
  "mailSent (logMsg l m h) = mailSent h"
  "agentCalls (logMsg l m h) = agentCalls h"
  "logs (logMsg l m h) = logs h @ [(l, m)]"
  by (simp_all add: logMsg_def)

lemma sendDiscordChunks_frame:
  "\<exists>ob. fst (sendDiscordChunks w target cs h) = h\<lparr>outbox := ob\<rparr>"
proof (induction cs arbitrary: h)
  case Nil
  show ?case by (rule exI [of _ "outbox h"]) simp
next
  case (Cons c cs)
  show ?case
  proof (cases "deliver w target c")
    case True
    from Cons [of "h\<lparr>outbox := outbox h @ [(target, c)]\<rparr>"] obtain ob where
      "fst (sendDiscordChunks w target cs (h\<lparr>outbox := outbox h @ [(target, c)]\<rparr>))
         = h\<lparr>outbox := outbox h @ [(target, c)]\<rparr>\<lparr>outbox := ob\<rparr>" by blast
    with True show ?thesis by (intro exI [of _ ob]) simp
  next
    case False
    then show ?thesis by (intro exI [of _ "outbox h"]) simp
  qed
qed









lemma scheduleTask_ignores_chatJid:
  "scheduleTask w (d\<lparr>d_chatJid := x\<rparr>) src isMain h = scheduleTask w d src isMain h"
  by (simp add: scheduleTask_def Let_def cong: NextRun.case_cong)

lemma find_Some_set: "find P xs = Some x \<Longrightarrow> x \<in> set xs \<and> P x"
  by (induction xs) (auto split: if_splits)

lemma findJidByFolder_Some:
  "findJidByFolder folder h = Some jid \<Longrightarrow>
     \<exists>g. (jid, g) \<in> set (registeredGroups h) \<and> g_folder g = folder"
  unfolding findJidByFolder_def
  by (cases "find (\<lambda>(jid, g). g_folder g = folder) (registeredGroups h)")
     (auto dest!: find_Some_set)

lemma scheduleTask_tasks:
  "tasks (fst (scheduleTask w d src isMain h)) = tasks h
   \<or> (\<exists>t. tasks (fst (scheduleTask w d src isMain h)) = tasks h @ [t]
          \<and> (isMain \<or> str (d_groupFolder d) = src)
          \<and> t_group_folder t = str (d_groupFolder d)
          \<and> findJidByFolder (t_group_folder t) h = Some (t_chat_jid t)
          \<and> t_status t = Active)"
proof (cases "findJidByFolder (str (d_groupFolder d)) h")
  case None
  then show ?thesis by (simp add: scheduleTask_def Let_def truthy_def)
next
  case (Some jid)
  then show ?thesis
    by (auto simp: scheduleTask_def Let_def createTask_def str_def split: NextRun.splits)
qed

text \<open>
  Claim C3. For a \<open>schedule_task\<close> command: when the source is not the privileged group and
  the payload's \<open>groupFolder\<close> is not the source directory, no task is created, and when
  the required fields are present the command is answered with the warning alone. When a
  task is created, it is appended to the tasks, its folder is the payload's \<open>groupFolder\<close>
  and its chat identity is the key found in the registry for that folder; the result of
  the command does not depend on the \<open>chatJid\<close> of the payload.
\<close>

theorem schedule_task_authorization:
  "d_type d = Some ''schedule_task'' \<longrightarrow>
     (\<not> isMain \<and> d_groupFolder d \<noteq> Some src \<longrightarrow>
        tasks (fst (processTaskIpc w d src isMain h)) = tasks h)
     \<and> (\<not> isMain \<and> truthy (d_prompt d) \<and> truthy (d_schedule_type d) \<and> truthy (d_schedule_value d)
          \<and> truthy (d_groupFolder d) \<and> d_groupFolder d \<noteq> Some src \<longrightarrow>
        processTaskIpc w d src isMain h =
          (logMsg LWarn ''Unauthorized schedule_task attempt blocked'' h, Returned))
     \<and> (tasks (fst (processTaskIpc w d src isMain h)) = tasks h
        \<or> (\<exists>t g. tasks (fst (processTaskIpc w d src isMain h)) = tasks h @ [t]
               \<and> t_group_folder t = str (d_groupFolder d)
               \<and> findJidByFolder (t_group_folder t) h = Some (t_chat_jid t)
               \<and> (t_chat_jid t, g) \<in> set (registeredGroups h) \<and> g_folder g = t_group_folder t))
     \<and> processTaskIpc w (d\<lparr>d_chatJid := payloadJid\<rparr>) src isMain h = processTaskIpc w d src isMain h"
proof (intro impI conjI)
  assume ty: "d_type d = Some ''schedule_task''"
  assume "\<not> isMain \<and> d_groupFolder d \<noteq> Some src"
  then have "\<not> isMain" "str (d_groupFolder d) \<noteq> src \<or> \<not> truthy (d_groupFolder d)"
    by (auto simp: str_def truthy_def split: option.splits)
  with scheduleTask_tasks [of w d src isMain h] ty
  show "tasks (fst (processTaskIpc w d src isMain h)) = tasks h"
    by (auto simp: processTaskIpc_def scheduleTask_def)
next
  assume ty: "d_type d = Some ''schedule_task''"
  assume a: "\<not> isMain \<and> truthy (d_prompt d) \<and> truthy (d_schedule_type d) \<and> truthy (d_schedule_value d)
          \<and> truthy (d_groupFolder d) \<and> d_groupFolder d \<noteq> Some src"
  then have "str (d_groupFolder d) \<noteq> src" by (auto simp: str_def truthy_def split: option.splits)
  with a ty show "processTaskIpc w d src isMain h =
          (logMsg LWarn ''Unauthorized schedule_task attempt blocked'' h, Returned)"
    by (simp add: processTaskIpc_def scheduleTask_def)
next
  assume ty: "d_type d = Some ''schedule_task''"
  from scheduleTask_tasks [of w d src isMain h] findJidByFolder_Some [of _ h] ty
  show "tasks (fst (processTaskIpc w d src isMain h)) = tasks h
        \<or> (\<exists>t g. tasks (fst (processTaskIpc w d src isMain h)) = tasks h @ [t]
               \<and> t_group_folder t = str (d_groupFolder d)
               \<and> findJidByFolder (t_group_folder t) h = Some (t_chat_jid t)
               \<and> (t_chat_jid t, g) \<in> set (registeredGroups h) \<and> g_folder g = t_group_folder t)"
    by (simp add: processTaskIpc_def) metis
next
  assume ty: "d_type d = Some ''schedule_task''"
  then show "processTaskIpc w (d\<lparr>d_chatJid := payloadJid\<rparr>) src isMain h = processTaskIpc w d src isMain h"
    by (simp add: processTaskIpc_def scheduleTask_ignores_chatJid)
qed

lemma parseInt_60000: "parseInt ''60000'' = Some 60000"
  by (simp add: parseInt_def isSpace_def isDigit_def digitVal_def Let_def)

lemma decimal_42: "decimal 42 = ''42''"
  by (simp add: decimal.simps digitChar_def)

text \<open>
  The theorem at a request for folder \<open>g3\<close> that carries a foreign \<open>chatJid\<close>: from \<open>g2\<close> it
  is rejected, from \<open>g3\<close> the task gets the registered identity of \<open>g3\<close>.
\<close>

theorem schedule_task_authorization_witness:
  "d_type scheduleRequest = Some ''schedule_task'' \<and> d_groupFolder scheduleRequest \<noteq> Some ''g2''
   \<and> processTaskIpc demoWorld scheduleRequest ''g2'' False twoGroupsHost =
       (logMsg LWarn ''Unauthorized schedule_task attempt blocked'' twoGroupsHost, Returned)
   \<and> tasks (fst (processTaskIpc demoWorld scheduleRequest ''g2'' False twoGroupsHost)) =
       tasks twoGroupsHost
   \<and> (\<exists>t. tasks (fst (processTaskIpc demoWorld scheduleRequest ''g3'' False twoGroupsHost)) =
             tasks twoGroupsHost @ [t]
          \<and> t_chat_jid t = ''c3@g.us'' \<and> t_group_folder t = ''g3'')"
proof -
  have a: "d_type scheduleRequest = Some ''schedule_task''"
    "d_groupFolder scheduleRequest \<noteq> Some ''g2''"
    "truthy (d_prompt scheduleRequest)" "truthy (d_schedule_type scheduleRequest)"
    "truthy (d_schedule_value scheduleRequest)" "truthy (d_groupFolder scheduleRequest)"
    "str (d_groupFolder scheduleRequest) = ''g3''"
    by (simp_all add: scheduleRequest_def emptyData_def truthy_def str_def)
  have f: "findJidByFolder ''g3'' twoGroupsHost = Some ''c3@g.us''"
    by (simp add: findJidByFolder_def twoGroupsHost_def emptyHost_def demoGroup_def)
  have created: "tasks (fst (processTaskIpc demoWorld scheduleRequest ''g3'' False twoGroupsHost))
        \<noteq> tasks twoGroupsHost"
    using a f
    by (simp add: processTaskIpc_def scheduleTask_def Let_def computeNextRun_def
          scheduleRequest_def emptyData_def str_def truthy_def parseInt_60000 demoWorld_def
          createTask_def)
  from schedule_task_authorization [of scheduleRequest False "''g3''" demoWorld twoGroupsHost] a(1) created
  obtain t where t: "tasks (fst (processTaskIpc demoWorld scheduleRequest ''g3'' False twoGroupsHost))
        = tasks twoGroupsHost @ [t]" "t_group_folder t = str (d_groupFolder scheduleRequest)"
      "findJidByFolder (t_group_folder t) twoGroupsHost = Some (t_chat_jid t)"
    by blast
  then have "t_chat_jid t = ''c3@g.us'' \<and> t_group_folder t = ''g3''"
    using a(7) f by simp
  with t(1) show ?thesis
    using schedule_task_authorization [of scheduleRequest False "''g2''" demoWorld twoGroupsHost] a
    by auto
qed


lemma taskControl_unauthorized:
  assumes ty: "d_type d = Some ''pause_task'' \<or> d_type d = Some ''resume_task''
             \<or> d_type d = Some ''cancel_task''"
      and tid: "d_taskId d = Some tid" "tid \<noteq> []"
      and task: "getTaskById tid h = Some t" "t_group_folder t \<noteq> src"
  shows "\<exists>msg \<in> {''Unauthorized task pause attempt'', ''Unauthorized task resume attempt'',
                  ''Unauthorized task cancel attempt''}.
           processTaskIpc w d src False h = (logMsg LWarn msg h, Returned)"
proof -
  have tr: "truthy (d_taskId d)" "str (d_taskId d) = tid"
    using tid by (simp_all add: truthy_def str_def)
  have p: "pauseTask d src False h = logMsg LWarn ''Unauthorized task pause attempt'' h"
    unfolding pauseTask_def using tr task by simp
  have r: "resumeTask d src False h = logMsg LWarn ''Unauthorized task resume attempt'' h"
    unfolding resumeTask_def using tr task by simp
  have c: "cancelTask d src False h = logMsg LWarn ''Unauthorized task cancel attempt'' h"
    unfolding cancelTask_def using tr task by simp
  from ty consider "d_type d = Some ''pause_task''" | "d_type d = Some ''resume_task''"
    | "d_type d = Some ''cancel_task''" by blast
  then show ?thesis
  proof cases
    case 1
    then have "processTaskIpc w d src False h = (pauseTask d src False h, Returned)"
      by (simp add: processTaskIpc_def)
    with p show ?thesis by simp
  next
    case 2
    then have "processTaskIpc w d src False h = (resumeTask d src False h, Returned)"
      by (simp add: processTaskIpc_def)
    with r show ?thesis by simp
  next
    case 3
    then have "processTaskIpc w d src False h = (cancelTask d src False h, Returned)"
      by (simp add: processTaskIpc_def)
    with c show ?thesis by simp
  qed
qed

text \<open>
  Claim C7. A task file of a non-privileged source group holds a \<open>pause_task\<close>,
  \<open>resume_task\<close> or \<open>cancel_task\<close> command that names an existing task of another group.
  Then \<open>processTaskIpc\<close> returns normally, and processing the file leaves the whole state
  as it was (every task with every field, the registry, the outbox) except that the file
  is deleted and one warning is logged; nothing is moved to the quarantine directory.
\<close>

theorem task_control_unauthorized_dropped:
  assumes "jsonParse w (str (map_of (files h) (tasksDir src @ [file]))) = JsonObject d"
      and "d_type d = Some ''pause_task'' \<or> d_type d = Some ''resume_task''
             \<or> d_type d = Some ''cancel_task''"
      and "d_taskId d = Some tid" "tid \<noteq> []"
      and "getTaskById tid h = Some t" "t_group_folder t \<noteq> src"
      and "src \<noteq> MAIN_GROUP_FOLDER w"
  shows "\<exists>msg \<in> {''Unauthorized task pause attempt'', ''Unauthorized task resume attempt'',
                  ''Unauthorized task cancel attempt''}.
           processTaskIpc w d src False h = (logMsg LWarn msg h, Returned)
           \<and> processTaskFile w src file h =
               h\<lparr>files := AList.delete (tasksDir src @ [file]) (files h),
                  logs := logs h @ [(LWarn, msg)]\<rparr>"
proof -
  from taskControl_unauthorized [OF assms(2-6), of w] obtain msg where
    m: "msg \<in> {''Unauthorized task pause attempt'', ''Unauthorized task resume attempt'',
                  ''Unauthorized task cancel attempt''}"
       "processTaskIpc w d src False h = (logMsg LWarn msg h, Returned)" by blast
  have "processTaskFile w src file h =
               h\<lparr>files := AList.delete (tasksDir src @ [file]) (files h),
                  logs := logs h @ [(LWarn, msg)]\<rparr>"
    using assms(1,7) m(2)
    by (simp add: processTaskFile_def Let_def unlinkSync_def logMsg_def)
  with m show ?thesis by blast
qed

text \<open>
  The theorem at the scenario of the specification: \<open>pause_task\<close> for \<open>t1\<close> in the mailbox
  of \<open>g2\<close>, where \<open>t1\<close> belongs to \<open>g3\<close>.
\<close>

theorem task_control_unauthorized_dropped_witness:
  "jsonParse pauseWorld (str (map_of (files pauseHost) (tasksDir ''g2'' @ [''1-ab.json''])))
     = JsonObject pauseRequest
   \<and> d_type pauseRequest = Some ''pause_task'' \<and> d_taskId pauseRequest = Some ''t1''
   \<and> getTaskById ''t1'' pauseHost = Some (demoTask ''t1'' ''g3'' ''c3@g.us'')
   \<and> ''g2'' \<noteq> MAIN_GROUP_FOLDER pauseWorld
   \<and> processTaskFile pauseWorld ''g2'' ''1-ab.json'' pauseHost =
        pauseHost\<lparr>files := [], logs := [(LWarn, ''Unauthorized task pause attempt'')]\<rparr>
   \<and> tasks (processTaskFile pauseWorld ''g2'' ''1-ab.json'' pauseHost) =
        [demoTask ''t1'' ''g3'' ''c3@g.us'']"
proof -
  have p: "jsonParse pauseWorld (str (map_of (files pauseHost) (tasksDir ''g2'' @ [''1-ab.json''])))
     = JsonObject pauseRequest" by (simp add: pauseWorld_def)
  have ty: "d_type pauseRequest = Some ''pause_task'' \<or> d_type pauseRequest = Some ''resume_task''
             \<or> d_type pauseRequest = Some ''cancel_task''"
    and tid: "d_taskId pauseRequest = Some ''t1''" "''t1'' \<noteq> []"
    by (simp_all add: pauseRequest_def emptyData_def)
  have g: "getTaskById ''t1'' pauseHost = Some (demoTask ''t1'' ''g3'' ''c3@g.us'')"
    by (simp add: getTaskById_def pauseHost_def twoGroupsHost_def emptyHost_def demoTask_def)
  have f: "t_group_folder (demoTask ''t1'' ''g3'' ''c3@g.us'') \<noteq> ''g2''"
    by (simp add: demoTask_def)
  have m: "''g2'' \<noteq> MAIN_GROUP_FOLDER pauseWorld" by (simp add: pauseWorld_def demoWorld_def)
  have pt: "processTaskIpc pauseWorld pauseRequest ''g2'' False pauseHost =
      (logMsg LWarn ''Unauthorized task pause attempt'' pauseHost, Returned)"
    using g by (simp add: processTaskIpc_def pauseTask_def pauseRequest_def emptyData_def truthy_def
         str_def demoTask_def)
  have fl: "AList.delete (tasksDir ''g2'' @ [''1-ab.json'']) (files pauseHost) = []"
    "logs pauseHost = []" "tasks pauseHost = [demoTask ''t1'' ''g3'' ''c3@g.us'']"
    by (simp_all add: pauseHost_def twoGroupsHost_def emptyHost_def)
  from task_control_unauthorized_dropped [OF p ty tid g f m]
  obtain msg where msg: "processTaskIpc pauseWorld pauseRequest ''g2'' False pauseHost
                      = (logMsg LWarn msg pauseHost, Returned)"
    "processTaskFile pauseWorld ''g2'' ''1-ab.json'' pauseHost =
               pauseHost\<lparr>files := AList.delete (tasksDir ''g2'' @ [''1-ab.json'']) (files pauseHost),
                  logs := logs pauseHost @ [(LWarn, msg)]\<rparr>" by blast
  from msg(1) pt have "logs (logMsg LWarn msg pauseHost)
      = logs (logMsg LWarn ''Unauthorized task pause attempt'' pauseHost)" by simp
  then have "msg = ''Unauthorized task pause attempt''" by simp
  with msg(2) have "processTaskFile pauseWorld ''g2'' ''1-ab.json'' pauseHost =
        pauseHost\<lparr>files := [], logs := [(LWarn, ''Unauthorized task pause attempt'')]\<rparr>"
    by (simp add: fl)
  then show ?thesis using p tid g m fl(3) by (simp add: pauseRequest_def emptyData_def)
qed






section \<open>Properties of the approval state machine\<close>

lemma sendMessage_frame: "\<exists>ob lg. sendMessage w jid t h = h\<lparr>outbox := ob, logs := lg\<rparr>"
proof (cases "startsWith jid ''discord:''")
  case True
  obtain ob where ob: "fst (sendDiscordChunks w (replaceFirst jid ''discord:'') (splitDiscordMessage t) h)
      = h\<lparr>outbox := ob\<rparr>" using sendDiscordChunks_frame by blast
  obtain h' b where hb: "sendDiscordChunks w (replaceFirst jid ''discord:'') (splitDiscordMessage t) h = (h', b)"
    by (cases "sendDiscordChunks w (replaceFirst jid ''discord:'') (splitDiscordMessage t) h")
  with ob have h': "h' = h\<lparr>outbox := ob\<rparr>" by simp
  show ?thesis
  proof (cases b)
    case True
    with hb h' \<open>startsWith jid ''discord:''\<close> have
      "sendMessage w jid t h = h\<lparr>outbox := ob, logs := logs h @ [(LInfo, ''Discord message sent'')]\<rparr>"
      by (simp add: sendMessage_def sendDiscordMessage_def logMsg_def)
    then show ?thesis by blast
  next
    case False
    with hb h' \<open>startsWith jid ''discord:''\<close> have
      "sendMessage w jid t h = h\<lparr>outbox := ob, logs := logs h @ [(LError, ''Failed to send Discord message'')]\<rparr>"
      by (simp add: sendMessage_def sendDiscordMessage_def logMsg_def)
    then show ?thesis by blast
  qed
next
  case False
  show ?thesis
  proof (cases "deliver w jid t")
    case True
    with False have "sendMessage w jid t h =
        h\<lparr>outbox := outbox h @ [(jid, t)], logs := logs h @ [(LInfo, ''Message sent'')]\<rparr>"
      by (simp add: sendMessage_def logMsg_def)
    then show ?thesis by blast
  next
    case d: False
    with False have "sendMessage w jid t h =
        h\<lparr>outbox := outbox h, logs := logs h @ [(LError, ''Failed to send message'')]\<rparr>"
      by (simp add: sendMessage_def logMsg_def)
    then show ?thesis by blast
  qed
qed

lemma sendMessage_pending [simp]:
  "pendingRequests (sendMessage w jid t h) = pendingRequests h"
proof -
  obtain ob lg where "sendMessage w jid t h = h\<lparr>outbox := ob, logs := lg\<rparr>"
    using sendMessage_frame by blast
  then show ?thesis by simp
qed

lemma statusOf_frame [simp]:
  "statusOf rid (logMsg l m h) = statusOf rid h"
  "statusOf rid (sendMessage w jid t h) = statusOf rid h"
  "statusOf rid (h\<lparr>files := fs\<rparr>) = statusOf rid h"
  by (simp_all add: statusOf_def)

lemma map_of_updateEntries:
  "map_of (map (\<lambda>(k, r). if k = rid then (k, f r) else (k, r)) al) x =
     (if x = rid then map_option f (map_of al x) else map_of al x)"
  by (induction al) auto

lemma keys_updateEntries:
  "map fst (map (\<lambda>(k, r). if k = rid then (k, f r) else (k, r)) al) = map fst al"
  by (induction al) auto

lemma statusOf_updateRequest:
  "statusOf x (updateRequest rid f h) =
     (if x = rid then map_option (\<lambda>r. r_status (f r)) (map_of (pendingRequests h) x)
      else statusOf x h)"
  by (simp add: statusOf_def updateRequest_def map_of_updateEntries option.map_comp comp_def)

lemma keys_updateRequest [simp]:
  "map fst (pendingRequests (updateRequest rid f h)) = map fst (pendingRequests h)"
proof -
  have "pendingRequests (updateRequest rid f h) =
          map (\<lambda>(k, r). if k = rid then (k, f r) else (k, r)) (pendingRequests h)"
    by (simp add: updateRequest_def)
  then show ?thesis by (simp only: keys_updateEntries)
qed

lemma keys_frame [simp]:
  "map fst (pendingRequests (logMsg l m h)) = map fst (pendingRequests h)"
  "map fst (pendingRequests (sendMessage w jid t h)) = map fst (pendingRequests h)"
  by simp_all

lemma applyFailed_status:
  assumes "map_of (pendingRequests h) rid = Some r0"
  shows "map (statusOf x) (applyFailed w rid chat err h) =
           (if x = rid then [Some Failed, Some Failed] else [statusOf x h, statusOf x h])"
    and "\<forall>h' \<in> set (applyFailed w rid chat err h).
           map fst (pendingRequests h') = map fst (pendingRequests h)"
  using assms by (simp_all add: applyFailed_def Let_def statusOf_updateRequest)

lemma updateRequest_files [simp]:
  "files (updateRequest rid f h) = files h"
  "pendingRequests (h\<lparr>files := fs\<rparr>) = pendingRequests h"
  by (simp_all add: updateRequest_def)

lemma applyApproved_status:
  assumes "map_of (pendingRequests h) rid = Some r0"
  shows "map (statusOf x) (applyApproved w rid request h) =
           (if x = rid
            then (if last (map (statusOf rid) (applyApproved w rid request h)) = Some Applied
                  then [Some Applied, Some Applied] else [Some Failed, Some Failed])
            else [statusOf x h, statusOf x h])
         \<and> (\<forall>h' \<in> set (applyApproved w rid request h).
               map fst (pendingRequests h') = map fst (pendingRequests h))"
proof (cases "map_of (files h) (r_filePath request)")
  case None
  then show ?thesis
    using applyFailed_status(1) [OF assms, of _ w "r_chatJid request" "''ENOENT''"]
          applyFailed_status(2) [OF assms, of w "r_chatJid request" "''ENOENT''"]
    by (simp add: applyApproved_def)
next
  case (Some plan)
  obtain res fs1 where c: "claude w plan (files h) = (res, fs1)" by (cases "claude w plan (files h)")
  have a1: "map_of (pendingRequests (h\<lparr>files := fs1\<rparr>)) rid = Some r0" using assms by simp
  show ?thesis
  proof (cases res)
    case (Inl err)
    with Some c show ?thesis
      using applyFailed_status(1) [OF a1, of _ w "r_chatJid request" err]
            applyFailed_status(2) [OF a1, of w "r_chatJid request" err]
      by (simp add: applyApproved_def)
  next
    case (Inr result)
    define h1 where "h1 = updateRequest rid (\<lambda>r. r\<lparr>r_status := Applied\<rparr>) (h\<lparr>files := fs1\<rparr>)"
    define appliedPath where "appliedPath = groupsPath (r_groupFolder request)
                                    (''HOST_CHANGES_APPLIED_'' @ decimal (now w) @ ''.md'')"
    have a2: "map_of (pendingRequests h1) rid = Some (r0\<lparr>r_status := Applied\<rparr>)"
      using assms by (simp add: h1_def updateRequest_def map_of_updateEntries)
    have s1: "statusOf x h1 = (if x = rid then Some Applied else statusOf x h)" for x
      using assms by (simp add: h1_def statusOf_updateRequest)
    have k1: "map fst (pendingRequests h1) = map fst (pendingRequests h)"
      by (simp add: h1_def)
    show ?thesis
    proof (cases "renameSync (r_filePath request) appliedPath (files h1)")
      case None
      have eq: "applyApproved w rid request h = applyFailed w rid (r_chatJid request) ''ENOENT'' h1"
        using Some c Inr None by (simp add: applyApproved_def Let_def h1_def appliedPath_def)
      show ?thesis
        unfolding eq
        using applyFailed_status(1) [OF a2, of _ w "r_chatJid request" "''ENOENT''"]
              applyFailed_status(2) [OF a2, of w "r_chatJid request" "''ENOENT''"] s1 k1
        by simp
    next
      case rn: (Some fs2)
      have eq: "applyApproved w rid request h =
          [h1\<lparr>files := fs2\<rparr>,
           logMsg LInfo ''Host changes applied''
             (sendMessage w (r_chatJid request)
                (''Host changes '' @ backtick @ rid @ backtick
                   @ '' applied successfully.'' @ [newline, newline] @ take 500 result)
                (h1\<lparr>files := fs2\<rparr>))]"
        using Some c Inr rn by (simp add: applyApproved_def Let_def h1_def appliedPath_def)
      show ?thesis
        unfolding eq using s1 k1 by simp
    qed
  qed
qed

lemma map_pair_const:
  assumes "map f xs = [a, a]"
  shows "\<forall>x \<in> set xs. f x = a"
proof -
  have "f ` set xs = set (map f xs)" by simp
  also have "\<dots> = {a}" unfolding assms by simp
  finally show ?thesis by blast
qed

lemma handleApproval_pending_trace:
  assumes p: "map_of (pendingRequests h) rid = Some r0" "r_status r0 = Pending"
  shows "map (statusOf rid) (handleApprovalStates w rid appr who h)
           \<in> {[Some Denied, Some Denied], [Some Approved, Some Applied, Some Applied],
              [Some Approved, Some Failed, Some Failed]}"
    and "x \<noteq> rid \<Longrightarrow> \<forall>h' \<in> set (handleApprovalStates w rid appr who h). statusOf x h' = statusOf x h"
    and "\<forall>h' \<in> set (handleApprovalStates w rid appr who h).
           map fst (pendingRequests h') = map fst (pendingRequests h)"
proof -
  define hd where "hd = updateRequest rid
                        (\<lambda>r. r\<lparr>r_approvedBy := Some who, r_status := Denied\<rparr>) h"
  define ha where "ha = updateRequest rid
                        (\<lambda>r. r\<lparr>r_approvedBy := Some who, r_status := Approved\<rparr>) h"
  define h2 where "h2 = sendMessage w (r_chatJid r0)
                        (''Host changes request '' @ backtick @ rid @ backtick
                           @ '' approved. Applying...'') ha"
  have sd: "statusOf y hd = (if y = rid then Some Denied else statusOf y h)" for y
    using p by (simp add: hd_def statusOf_updateRequest)
  have sa: "statusOf y ha = (if y = rid then Some Approved else statusOf y h)" for y
    using p by (simp add: ha_def statusOf_updateRequest)
  have s2: "statusOf y h2 = statusOf y ha" for y by (simp add: h2_def)
  have k: "map fst (pendingRequests hd) = map fst (pendingRequests h)"
    "map fst (pendingRequests ha) = map fst (pendingRequests h)"
    "map fst (pendingRequests h2) = map fst (pendingRequests h)"
    by (simp_all add: hd_def ha_def h2_def)
  have m2: "map_of (pendingRequests h2) rid
              = Some (r0\<lparr>r_approvedBy := Some who, r_status := Approved\<rparr>)"
    using p by (simp add: h2_def ha_def updateRequest_def map_of_updateEntries)
  note ap = applyApproved_status [OF m2, of _ w r0]
  show "map (statusOf rid) (handleApprovalStates w rid appr who h)
           \<in> {[Some Denied, Some Denied], [Some Approved, Some Applied, Some Applied],
              [Some Approved, Some Failed, Some Failed]}"
  proof (cases appr)
    case False
    with p show ?thesis
      by (simp add: handleApprovalStates_def Let_def hd_def [symmetric] sd split: option.splits)
  next
    case True
    have "handleApprovalStates w rid appr who h = ha # applyApproved w rid r0 h2"
      using p True by (simp add: handleApprovalStates_def Let_def ha_def h2_def)
    then show ?thesis using ap [of rid] sa by (simp split: if_splits)
  qed
  show "\<forall>h' \<in> set (handleApprovalStates w rid appr who h). statusOf x h' = statusOf x h"
    if x: "x \<noteq> rid"
  proof (cases appr)
    case False
    with p x show ?thesis
      by (simp add: handleApprovalStates_def Let_def hd_def [symmetric] sd split: option.splits)
  next
    case True
    have e: "handleApprovalStates w rid appr who h = ha # applyApproved w rid r0 h2"
      using p True by (simp add: handleApprovalStates_def Let_def ha_def h2_def)
    from ap [of x] x have "map (statusOf x) (applyApproved w rid r0 h2) = [statusOf x h2, statusOf x h2]"
      by simp
    then have "\<forall>h' \<in> set (applyApproved w rid r0 h2). statusOf x h' = statusOf x h2"
      by (rule map_pair_const)
    with x show ?thesis unfolding e by (simp add: s2 sa)
  qed
  show "\<forall>h' \<in> set (handleApprovalStates w rid appr who h).
           map fst (pendingRequests h') = map fst (pendingRequests h)"
  proof (cases appr)
    case False
    with p show ?thesis
      by (simp add: handleApprovalStates_def Let_def hd_def [symmetric] k split: option.splits)
  next
    case True
    have e: "handleApprovalStates w rid appr who h = ha # applyApproved w rid r0 h2"
      using p True by (simp add: handleApprovalStates_def Let_def ha_def h2_def)
    show ?thesis unfolding e using ap [of rid] k by simp
  qed
qed

lemma handleApproval_not_pending:
  assumes "statusOf rid h \<noteq> Some Pending"
  shows "\<forall>h' \<in> set (handleApprovalStates w rid appr who h). pendingRequests h' = pendingRequests h"
  using assms
  by (cases "map_of (pendingRequests h) rid")
     (simp_all add: handleApprovalStates_def statusOf_def)

lemma oneWay_const: "\<forall>y \<in> set xs. y = a \<Longrightarrow> oneWay (a # xs)"
  by (induction xs) auto

lemma handleApprovalStates_nonempty: "handleApprovalStates w rid appr who h \<noteq> []"
  by (simp add: handleApprovalStates_def Let_def split: option.splits)

lemma handleApproval_resolved:
  "statusOf rid (handleApproval w rid appr who h) \<noteq> Some Pending"
proof (cases "statusOf rid h = Some Pending")
  case True
  then obtain r0 where r0: "map_of (pendingRequests h) rid = Some r0" "r_status r0 = Pending"
    by (auto simp: statusOf_def)
  let ?st = "handleApprovalStates w rid appr who h"
  have "statusOf rid (last ?st) = last (map (statusOf rid) ?st)"
    using handleApprovalStates_nonempty by (simp add: last_map)
  moreover have "last (map (statusOf rid) ?st) \<noteq> Some Pending"
    using handleApproval_pending_trace(1) [OF r0, of w appr who] by auto
  ultimately show ?thesis by (simp add: handleApproval_def)
next
  case False
  have "last (handleApprovalStates w rid appr who h) \<in> set (handleApprovalStates w rid appr who h)"
    using handleApprovalStates_nonempty by simp
  with handleApproval_not_pending [OF False, of w appr who]
  have "pendingRequests (handleApproval w rid appr who h) = pendingRequests h"
    by (simp add: handleApproval_def)
  with False show ?thesis by (simp add: statusOf_def)
qed

text \<open>
  Claim C8. \<open>statusOf rid h\<close> is the status of request \<open>rid\<close> in state \<open>h\<close>. For a pending
  request the statuses at the observable states of \<open>handleApproval\<close> are \<open>denied\<close>, or
  \<open>approved\<close> then \<open>applied\<close>, or \<open>approved\<close> then \<open>failed\<close>; for a request that is unknown or
  no longer pending, no request changes at all. No other request changes its status, no
  request is added or removed, every step from one observable state to the next keeps the
  status or takes one of the four transitions of \<open>allowedTransition\<close> (none of which leads
  to \<open>pending\<close>), and a second \<open>handleApproval\<close> on the same request, whatever its
  arguments, changes no request.
\<close>

theorem approval_transitions_one_way:
  "(statusOf rid h = Some Pending \<longrightarrow>
      map (statusOf rid) (handleApprovalStates w rid appr who h)
        \<in> {[Some Denied, Some Denied], [Some Approved, Some Applied, Some Applied],
           [Some Approved, Some Failed, Some Failed]})
   \<and> (statusOf rid h \<noteq> Some Pending \<longrightarrow>
        (\<forall>h' \<in> set (handleApprovalStates w rid appr who h). pendingRequests h' = pendingRequests h))
   \<and> (x \<noteq> rid \<longrightarrow>
        (\<forall>h' \<in> set (handleApprovalStates w rid appr who h). statusOf x h' = statusOf x h))
   \<and> (\<forall>h' \<in> set (handleApprovalStates w rid appr who h).
        map fst (pendingRequests h') = map fst (pendingRequests h))
   \<and> oneWay (map (statusOf x) (h # handleApprovalStates w rid appr who h))
   \<and> pendingRequests (handleApproval w' rid appr' who' (handleApproval w rid appr who h))
        = pendingRequests (handleApproval w rid appr who h)"
proof -
  let ?st = "handleApprovalStates w rid appr who h"
  have np: "\<forall>h' \<in> set ?st. pendingRequests h' = pendingRequests h"
    if "statusOf rid h \<noteq> Some Pending"
    using that by (rule handleApproval_not_pending)
  have tr: "map (statusOf rid) ?st
        \<in> {[Some Denied, Some Denied], [Some Approved, Some Applied, Some Applied],
           [Some Approved, Some Failed, Some Failed]}"
    and keys: "\<forall>h' \<in> set ?st. map fst (pendingRequests h') = map fst (pendingRequests h)"
    and others: "x \<noteq> rid \<Longrightarrow> \<forall>h' \<in> set ?st. statusOf x h' = statusOf x h"
    if "statusOf rid h = Some Pending"
  proof -
    from that obtain r0 where r0: "map_of (pendingRequests h) rid = Some r0" "r_status r0 = Pending"
      by (auto simp: statusOf_def)
    show "map (statusOf rid) ?st
        \<in> {[Some Denied, Some Denied], [Some Approved, Some Applied, Some Applied],
           [Some Approved, Some Failed, Some Failed]}"
      by (rule handleApproval_pending_trace(1) [OF r0])
    show "\<forall>h' \<in> set ?st. map fst (pendingRequests h') = map fst (pendingRequests h)"
      by (rule handleApproval_pending_trace(3) [OF r0])
    show "\<forall>h' \<in> set ?st. statusOf x h' = statusOf x h" if "x \<noteq> rid"
      using that by (rule handleApproval_pending_trace(2) [OF r0])
  qed
  have c3: "\<forall>h' \<in> set ?st. statusOf x h' = statusOf x h" if "x \<noteq> rid"
  proof (cases "statusOf rid h = Some Pending")
    case True
    from others [OF True that] show ?thesis .
  next
    case False
    from np [OF False] show ?thesis by (simp add: statusOf_def)
  qed
  have c4: "\<forall>h' \<in> set ?st. map fst (pendingRequests h') = map fst (pendingRequests h)"
  proof (cases "statusOf rid h = Some Pending")
    case True
    from keys [OF True] show ?thesis .
  next
    case False
    from np [OF False] show ?thesis by simp
  qed
  have c5: "oneWay (map (statusOf x) (h # ?st))"
  proof (cases "x = rid \<and> statusOf rid h = Some Pending")
    case True
    with tr have "map (statusOf x) ?st
        \<in> {[Some Denied, Some Denied], [Some Approved, Some Applied, Some Applied],
           [Some Approved, Some Failed, Some Failed]}" by simp
    then consider "map (statusOf x) ?st = [Some Denied, Some Denied]"
      | "map (statusOf x) ?st = [Some Approved, Some Applied, Some Applied]"
      | "map (statusOf x) ?st = [Some Approved, Some Failed, Some Failed]" by blast
    then show ?thesis
    proof cases
      case 1
      have "map (statusOf x) (h # ?st) = statusOf x h # map (statusOf x) ?st" by simp
      also have "\<dots> = [Some Pending, Some Denied, Some Denied]" using True 1 by simp
      finally show ?thesis by (simp add: allowedTransition_def)
    next
      case 2
      have "map (statusOf x) (h # ?st) = statusOf x h # map (statusOf x) ?st" by simp
      also have "\<dots> = [Some Pending, Some Approved, Some Applied, Some Applied]"
        using True 2 by simp
      finally show ?thesis by (simp add: allowedTransition_def)
    next
      case 3
      have "map (statusOf x) (h # ?st) = statusOf x h # map (statusOf x) ?st" by simp
      also have "\<dots> = [Some Pending, Some Approved, Some Failed, Some Failed]"
        using True 3 by simp
      finally show ?thesis by (simp add: allowedTransition_def)
    qed
  next
    case False
    have "\<forall>h' \<in> set ?st. statusOf x h' = statusOf x h"
    proof (cases "x = rid")
      case True
      with False have "statusOf rid h \<noteq> Some Pending" by simp
      from np [OF this] show ?thesis by (simp add: statusOf_def)
    next
      case False
      then show ?thesis by (rule c3)
    qed
    then have "\<forall>y \<in> set (map (statusOf x) ?st). y = statusOf x h" by simp
    then have "oneWay (statusOf x h # map (statusOf x) ?st)" by (rule oneWay_const)
    then show ?thesis by simp
  qed
  have c6: "pendingRequests (handleApproval w' rid appr' who' (handleApproval w rid appr who h))
        = pendingRequests (handleApproval w rid appr who h)"
  proof -
    let ?h1 = "handleApproval w rid appr who h"
    have "last (handleApprovalStates w' rid appr' who' ?h1)
            \<in> set (handleApprovalStates w' rid appr' who' ?h1)"
      using handleApprovalStates_nonempty by simp
    with handleApproval_not_pending [OF handleApproval_resolved, of w' rid appr' who' w appr who h]
    show ?thesis by (simp add: handleApproval_def)
  qed
  from tr np c3 c4 c5 c6 show ?thesis by blast
qed

lemma approve_trace:
  "map (statusOf ''hc-1'') (handleApprovalStates demoWorld ''hc-1'' True ''alice'' approvalHost)
     = [Some Approved, Some Applied, Some Applied]"
  by (simp add: handleApprovalStates_def applyApproved_def applyFailed_def Let_def
        approvalHost_def planRequest_def twoGroupsHost_def emptyHost_def demoWorld_def
        updateRequest_def renameSync_def groupsPath_def statusOf_def sendMessage_def
        startsWith_def logMsg_def)

lemma approve_rename_fails_trace:
  "map (statusOf ''hc-1'')
     (handleApprovalStates planRemovingWorld ''hc-1'' True ''alice'' approvalHost)
     = [Some Approved, Some Failed, Some Failed]"
  by (simp add: handleApprovalStates_def applyApproved_def applyFailed_def Let_def
        approvalHost_def planRequest_def twoGroupsHost_def emptyHost_def demoWorld_def
        planRemovingWorld_def
        updateRequest_def renameSync_def groupsPath_def statusOf_def sendMessage_def
        startsWith_def logMsg_def)

text \<open>
  The theorem at a pending request that is approved: once with a tool run that succeeds,
  and once with a run after which the plan file is gone, so that the rename throws.
\<close>

theorem approval_transitions_one_way_witness:
  "statusOf ''hc-1'' approvalHost = Some Pending
   \<and> map (statusOf ''hc-1'') (handleApprovalStates demoWorld ''hc-1'' True ''alice'' approvalHost)
       = [Some Approved, Some Applied, Some Applied]
   \<and> map (statusOf ''hc-1'')
        (handleApprovalStates planRemovingWorld ''hc-1'' True ''alice'' approvalHost)
       = [Some Approved, Some Failed, Some Failed]
   \<and> oneWay (map (statusOf ''hc-1'')
        (approvalHost # handleApprovalStates demoWorld ''hc-1'' True ''alice'' approvalHost))
   \<and> pendingRequests
        (handleApproval demoWorld ''hc-1'' False ''bob''
           (handleApproval demoWorld ''hc-1'' True ''alice'' approvalHost))
       = pendingRequests (handleApproval demoWorld ''hc-1'' True ''alice'' approvalHost)"
proof -
  have p: "statusOf ''hc-1'' approvalHost = Some Pending"
    by (simp add: statusOf_def approvalHost_def planRequest_def)
  from approval_transitions_one_way
         [of "''hc-1''" approvalHost demoWorld True "''alice''" "''hc-1''" demoWorld False "''bob''"]
  show ?thesis using p approve_trace approve_rename_fails_trace by simp
qed


section \<open>Properties of the message router\<close>








lemma sendMessage_agentCalls [simp]:
  "agentCalls (sendMessage w jid t h) = agentCalls h"
proof -
  obtain ob lg where "sendMessage w jid t h = h\<lparr>outbox := ob, logs := lg\<rparr>"
    using sendMessage_frame by blast
  then show ?thesis by simp
qed

lemma setTyping_frame [simp]:
  "agentCalls (setTyping jid b h) = agentCalls h"
  "pendingRequests (setTyping jid b h) = pendingRequests h"
  "sessions (setTyping jid b h) = sessions h"
  by (simp_all add: setTyping_def)

lemma updateRequest_agentCalls [simp]:
  "agentCalls (updateRequest rid f h) = agentCalls h"
  by (simp add: updateRequest_def)

lemma applyFailed_agentCalls:
  "\<forall>h' \<in> set (applyFailed w rid chat err h). agentCalls h' = agentCalls h"
  by (simp add: applyFailed_def Let_def)

lemma applyApproved_agentCalls:
  "\<forall>h' \<in> set (applyApproved w rid request h). agentCalls h' = agentCalls h"
proof (cases "map_of (files h) (r_filePath request)")
  case None
  then show ?thesis using applyFailed_agentCalls [of w rid "r_chatJid request" "''ENOENT''" h]
    by (simp add: applyApproved_def)
next
  case (Some plan)
  obtain res fs1 where c: "claude w plan (files h) = (res, fs1)" by (cases "claude w plan (files h)")
  show ?thesis
  proof (cases res)
    case (Inl err)
    with Some c show ?thesis
      using applyFailed_agentCalls [of w rid "r_chatJid request" err "h\<lparr>files := fs1\<rparr>"]
      by (simp add: applyApproved_def)
  next
    case (Inr result)
    define h1 where "h1 = updateRequest rid (\<lambda>r. r\<lparr>r_status := Applied\<rparr>) (h\<lparr>files := fs1\<rparr>)"
    define appliedPath where "appliedPath = groupsPath (r_groupFolder request)
                                    (''HOST_CHANGES_APPLIED_'' @ decimal (now w) @ ''.md'')"
    have a1: "agentCalls h1 = agentCalls h" by (simp add: h1_def)
    show ?thesis
    proof (cases "renameSync (r_filePath request) appliedPath (files h1)")
      case None
      have eq: "applyApproved w rid request h = applyFailed w rid (r_chatJid request) ''ENOENT'' h1"
        using Some c Inr None by (simp add: applyApproved_def Let_def h1_def appliedPath_def)
      show ?thesis unfolding eq
        using applyFailed_agentCalls [of w rid "r_chatJid request" "''ENOENT''" h1] a1 by simp
    next
      case rn: (Some fs2)
      have eq: "applyApproved w rid request h =
          [h1\<lparr>files := fs2\<rparr>,
           logMsg LInfo ''Host changes applied''
             (sendMessage w (r_chatJid request)
                (''Host changes '' @ backtick @ rid @ backtick
                   @ '' applied successfully.'' @ [newline, newline] @ take 500 result)
                (h1\<lparr>files := fs2\<rparr>))]"
        using Some c Inr rn by (simp add: applyApproved_def Let_def h1_def appliedPath_def)
      show ?thesis unfolding eq using a1 by simp
    qed
  qed
qed

lemma handleApprovalStates_agentCalls:
  "\<forall>h' \<in> set (handleApprovalStates w rid appr who h). agentCalls h' = agentCalls h"
proof (cases "map_of (pendingRequests h) rid")
  case None
  then show ?thesis by (simp add: handleApprovalStates_def)
next
  case (Some r0)
  show ?thesis
  proof (cases "r_status r0 = Pending")
    case False
    with Some show ?thesis by (simp add: handleApprovalStates_def)
  next
    case True
    show ?thesis
    proof (cases appr)
      case False
      with Some True show ?thesis
        by (simp add: handleApprovalStates_def Let_def split: option.splits)
    next
      case appr: True
      define ha where "ha = updateRequest rid
                        (\<lambda>r. r\<lparr>r_approvedBy := Some who, r_status := Approved\<rparr>) h"
      define h2 where "h2 = sendMessage w (r_chatJid r0)
                        (''Host changes request '' @ backtick @ rid @ backtick
                           @ '' approved. Applying...'') ha"
      have e: "handleApprovalStates w rid appr who h = ha # applyApproved w rid r0 h2"
        using Some True appr by (simp add: handleApprovalStates_def Let_def ha_def h2_def)
      have "agentCalls ha = agentCalls h" "agentCalls h2 = agentCalls h"
        by (simp_all add: ha_def h2_def)
      then show ?thesis
        unfolding e using applyApproved_agentCalls [of w rid r0 h2] by simp
    qed
  qed
qed

lemma handleApproval_agentCalls [simp]:
  "agentCalls (handleApproval w rid appr who h) = agentCalls h"
proof -
  have "last (handleApprovalStates w rid appr who h) \<in> set (handleApprovalStates w rid appr who h)"
    using handleApprovalStates_nonempty by simp
  with handleApprovalStates_agentCalls show ?thesis
    unfolding handleApproval_def by blast
qed

lemma buildPrompt_nonempty [simp]: "buildPrompt ms \<noteq> []"
  by (simp add: buildPrompt_def)

lemma runAgent_effect:
  "agentCalls (fst (runAgent w grp prompt chatJid h)) =
     agentCalls h @ [\<lparr>a_prompt = prompt, a_sessionId = map_of (sessions h) (g_folder grp),
                      a_groupFolder = g_folder grp, a_chatJid = chatJid,
                      a_isMain = (g_folder grp = MAIN_GROUP_FOLDER w)\<rparr>]"
  "pendingRequests (fst (runAgent w grp prompt chatJid h)) = pendingRequests h"
  by (simp_all add: runAgent_def Let_def split: AgentResult.splits)

lemma processMessage_routed:
  assumes reg: "map_of (registeredGroups h) (m_chat_jid msg) = Some grp"
      and na: "\<not> isApproval (checkApprovalMessage (trim (m_content msg)) (m_chat_jid msg) h)"
  shows "triggerPasses w grp (trim (m_content msg)) = None \<Longrightarrow> processMessage w msg h = (h, Thrown)"
    and "triggerPasses w grp (trim (m_content msg)) = Some False \<Longrightarrow>
           processMessage w msg h = (h, Returned)"
    and "triggerPasses w grp (trim (m_content msg)) = Some True \<Longrightarrow>
           snd (processMessage w msg h) = Returned
           \<and> agentCalls (fst (processMessage w msg h)) = agentCalls h @ [agentInput w grp msg h]
           \<and> pendingRequests (fst (processMessage w msg h)) = pendingRequests h"
proof -
  show "processMessage w msg h = (h, Thrown)" if "triggerPasses w grp (trim (m_content msg)) = None"
    using reg na that by (simp add: processMessage_def Let_def)
  show "processMessage w msg h = (h, Returned)"
    if "triggerPasses w grp (trim (m_content msg)) = Some False"
    using reg na that by (simp add: processMessage_def Let_def)
  show "snd (processMessage w msg h) = Returned
           \<and> agentCalls (fst (processMessage w msg h)) = agentCalls h @ [agentInput w grp msg h]
           \<and> pendingRequests (fst (processMessage w msg h)) = pendingRequests h"
    if tp: "triggerPasses w grp (trim (m_content msg)) = Some True"
  proof -
    define prompt where "prompt = buildPrompt (getMessagesSince (m_chat_jid msg)
                                 (str (map_of (lastAgentTimestamp h) (m_chat_jid msg))) h)"
    define h1 where "h1 = setTyping (m_chat_jid msg) True (logMsg LInfo ''Processing message'' h)"
    obtain h2 response where ra: "runAgent w grp prompt (m_chat_jid msg) h1 = (h2, response)"
      by (cases "runAgent w grp prompt (m_chat_jid msg) h1")
    have h2: "agentCalls h2 = agentCalls h @ [agentInput w grp msg h]"
      "pendingRequests h2 = pendingRequests h"
      using runAgent_effect [of w grp prompt "m_chat_jid msg" h1] ra
      by (simp_all add: h1_def agentInput_def prompt_def)
    have pm: "processMessage w msg h =
        (let h3 = setTyping (m_chat_jid msg) False h2
         in if truthy response
            then (sendMessage w (m_chat_jid msg) (str response)
                    (h3\<lparr>lastAgentTimestamp :=
                          AList.update (m_chat_jid msg) (m_timestamp msg) (lastAgentTimestamp h3)\<rparr>),
                  Returned)
            else (h3, Returned))"
      using reg na tp ra
      by (simp add: processMessage_def Let_def prompt_def [symmetric] h1_def [symmetric])
    show ?thesis unfolding pm using h2 by (simp add: Let_def)
  qed
qed







lemma onDiscordMessage_known:
  assumes nb: "\<not> dm_authorBot message"
      and reg: "map_of (registeredGroups h) (discordJidOf message) = Some grp"
  shows "agentCalls (fst (onDiscordMessage w message h)) \<noteq> agentCalls h
           \<longleftrightarrow> triggerPasses w grp (str (dm_content message)) = Some True"
proof -
  let ?jid = "discordJidOf message"
  let ?h2 = "logMsg LInfo ''Discord message received'' h"
  have jid: "(if truthy (dm_guildId message) then ''discord:'' @ dm_channelId message
      else ''discord:'' @ dm_authorId message) = ?jid" by (simp add: discordJidOf_def)
  show ?thesis
  proof (cases "triggerPasses w grp (str (dm_content message))")
    case None
    then have "onDiscordMessage w message h = (?h2, Thrown)"
      using nb reg unfolding onDiscordMessage_def Let_def jid by simp
    with None show ?thesis by simp
  next
    case (Some b)
    show ?thesis
    proof (cases b)
      case False
      with Some have "onDiscordMessage w message h = (?h2, Returned)"
        using nb reg unfolding onDiscordMessage_def Let_def jid by simp
      with Some False show ?thesis by simp
    next
      case True
      define input where "input = \<lparr>a_prompt = ''<messages>'' @ [newline]
                                      @ messageLine escapeXmlNoQuote (dm_username message)
                                          (nowISO w) (str (dm_content message))
                                      @ [newline] @ ''</messages>'',
                                    a_sessionId = map_of (sessions ?h2) (g_folder grp),
                                    a_groupFolder = g_folder grp, a_chatJid = ?jid,
                                    a_isMain = False\<rparr>"
      have "agentCalls (fst (onDiscordMessage w message h)) = agentCalls h @ [input]"
        using nb reg Some True unfolding onDiscordMessage_def Let_def jid input_def
        by (simp split: AgentResult.splits)
      with Some True show ?thesis by simp
    qed
  qed
qed

text \<open>
  Claim C4, amended. A message of a registered chat that is not intercepted as an approval
  message invokes the agent exactly when the group's trigger is absent or empty, or the
  trimmed body matches the pattern \<^verbatim>\<open>^trigger\b\<close> without regard to letter case; with a
  non-empty trigger that does not match, \<open>processMessage\<close> returns without any effect. A
  message of an unregistered chat has no effect. On the gateway channel, where nothing is
  intercepted and the body is not trimmed, a message of a registered chat invokes the
  agent exactly when the trigger is absent or empty or the body matches the pattern.
\<close>

theorem trigger_eligibility:
  "(map_of (registeredGroups h) (m_chat_jid msg) = Some grp
      \<and> \<not> isApproval (checkApprovalMessage (trim (m_content msg)) (m_chat_jid msg) h) \<longrightarrow>
      (agentCalls (fst (processMessage w msg h)) \<noteq> agentCalls h
         \<longleftrightarrow> g_trigger grp = None \<or> g_trigger grp = Some []
             \<or> rx w (triggerPattern (str (g_trigger grp))) (trim (m_content msg)) = Some True)
      \<and> (truthy (g_trigger grp)
           \<and> rx w (triggerPattern (str (g_trigger grp))) (trim (m_content msg)) = Some False \<longrightarrow>
          processMessage w msg h = (h, Returned)))
   \<and> (map_of (registeredGroups h) (m_chat_jid msg) = None \<longrightarrow>
        processMessage w msg h = (h, Returned))
   \<and> (\<not> dm_authorBot message
        \<and> map_of (registeredGroups h) (discordJidOf message) = Some dgrp \<longrightarrow>
      (agentCalls (fst (onDiscordMessage w message h)) \<noteq> agentCalls h
         \<longleftrightarrow> g_trigger dgrp = None \<or> g_trigger dgrp = Some []
             \<or> rx w (triggerPattern (str (g_trigger dgrp))) (str (dm_content message)) = Some True))"
proof -
  have tp: "triggerPasses w g c = Some True \<longleftrightarrow>
              g_trigger g = None \<or> g_trigger g = Some [] \<or> rx w (triggerPattern (str (g_trigger g))) c = Some True"
    for g c
    by (cases "g_trigger g") (auto simp: triggerPasses_def truthy_def)
  have a: "(agentCalls (fst (processMessage w msg h)) \<noteq> agentCalls h
         \<longleftrightarrow> g_trigger grp = None \<or> g_trigger grp = Some []
             \<or> rx w (triggerPattern (str (g_trigger grp))) (trim (m_content msg)) = Some True)
      \<and> (truthy (g_trigger grp)
           \<and> rx w (triggerPattern (str (g_trigger grp))) (trim (m_content msg)) = Some False \<longrightarrow>
          processMessage w msg h = (h, Returned))"
    if reg: "map_of (registeredGroups h) (m_chat_jid msg) = Some grp"
      and na: "\<not> isApproval (checkApprovalMessage (trim (m_content msg)) (m_chat_jid msg) h)"
  proof -
    note r = processMessage_routed [OF reg na, of w]
    have i: "agentCalls (fst (processMessage w msg h)) \<noteq> agentCalls h
                 \<longleftrightarrow> triggerPasses w grp (trim (m_content msg)) = Some True"
    proof (cases "triggerPasses w grp (trim (m_content msg))")
      case None
      with r(1) show ?thesis by simp
    next
      case (Some b)
      with r(2,3) show ?thesis by (cases b) simp_all
    qed
    have s: "processMessage w msg h = (h, Returned)"
      if "truthy (g_trigger grp)
           \<and> rx w (triggerPattern (str (g_trigger grp))) (trim (m_content msg)) = Some False"
    proof -
      from that have "triggerPasses w grp (trim (m_content msg)) = Some False"
        by (simp add: triggerPasses_def)
      then show ?thesis by (rule r(2))
    qed
    from i s show ?thesis unfolding tp by blast
  qed
  have b: "processMessage w msg h = (h, Returned)"
    if "map_of (registeredGroups h) (m_chat_jid msg) = None"
    using that by (simp add: processMessage_def)
  have c: "agentCalls (fst (onDiscordMessage w message h)) \<noteq> agentCalls h
         \<longleftrightarrow> g_trigger dgrp = None \<or> g_trigger dgrp = Some []
             \<or> rx w (triggerPattern (str (g_trigger dgrp))) (str (dm_content message)) = Some True"
    if "\<not> dm_authorBot message \<and> map_of (registeredGroups h) (discordJidOf message) = Some dgrp"
    using onDiscordMessage_known [of message h dgrp w] that unfolding tp by blast
  from a b c show ?thesis by blast
qed

lemma trim_plain:
  "trim ''approve hc-7'' = ''approve hc-7''" "trim ''hello'' = ''hello''"
  "trim ''@bot hi'' = ''@bot hi''"
  by (simp_all add: trim_def isSpace_def)

lemma matchApproval_explicit:
  "matchApproval ''approve hc-7'' = Some (''approve'', Some ''hc-7'')"
  by (simp add: matchApproval_def toLowerCase_def toLowerChar_def startsWith_def Let_def
        isSpace_def isDigit_def)

text \<open>
  Claim C4 as stated fails: the group has the empty trigger, yet the message
  \<^verbatim>\<open>approve hc-7\<close> does not invoke the agent; it is intercepted as an approval message (for
  a request that does not exist).
\<close>

theorem approval_keyword_not_eligible_counterexample:
  "map_of (registeredGroups autoHost) ''c1@g.us'' = Some (demoGroup ''g1'' (Some []))
   \<and> g_trigger (demoGroup ''g1'' (Some [])) = Some []
   \<and> agentCalls (fst (processMessage demoWorld
        (chatMessage ''c1@g.us'' ''approve hc-7'' ''2026-01-01T10:00:00.000Z'') autoHost))
       = agentCalls autoHost
   \<and> snd (processMessage demoWorld
        (chatMessage ''c1@g.us'' ''approve hc-7'' ''2026-01-01T10:00:00.000Z'') autoHost) = Returned"
  by (simp add: processMessage_def Let_def autoHost_def emptyHost_def chatMessage_def
        trim_plain checkApprovalMessage_def matchApproval_explicit truthy_def str_def
        demoGroup_def)

lemma literalRx_bot:
  "rx demoWorld (triggerPattern ''@bot'') ''@bot hi'' = Some True"
  "rx demoWorld (triggerPattern ''@bot'') ''hello'' = Some False"
  by (simp_all add: demoWorld_def literalRx_def triggerPattern_def Let_def toLowerCase_def
        toLowerChar_def startsWith_def wordBoundaryAt_def isWordChar_def isDigit_def)

lemma not_approval_plain:
  "\<not> isApproval (checkApprovalMessage ''@bot hi'' ''g1'' botHost)"
  "\<not> isApproval (checkApprovalMessage ''hello'' ''g1'' botHost)"
  by (simp_all add: checkApprovalMessage_def matchApproval_def toLowerCase_def toLowerChar_def
        startsWith_def Let_def)

text \<open>
  The theorem at the scenario of the specification (chat \<open>g1\<close> with trigger \<^verbatim>\<open>@bot\<close>, messages
  \<^verbatim>\<open>hello\<close> and \<^verbatim>\<open>@bot hi\<close>), at an unregistered chat, and at a direct message on the gateway
  channel to a group with the empty trigger.
\<close>

theorem trigger_eligibility_witness:
  "map_of (registeredGroups botHost) ''g1'' = Some (demoGroup ''g1'' (Some ''@bot''))
   \<and> processMessage demoWorld (chatMessage ''g1'' ''hello'' ''2026-01-01T10:00:00.000Z'') botHost
       = (botHost, Returned)
   \<and> agentCalls (fst (processMessage demoWorld
         (chatMessage ''g1'' ''@bot hi'' ''2026-01-01T10:00:01.000Z'') botHost)) \<noteq> agentCalls botHost
   \<and> map_of (registeredGroups botHost) ''g9'' = None
   \<and> processMessage demoWorld (chatMessage ''g9'' ''@bot hi'' ''2026-01-01T10:00:01.000Z'') botHost
       = (botHost, Returned)
   \<and> map_of (registeredGroups botHost) (discordJidOf dmMessage)
       = Some (demoGroup ''discord-dm-777'' (Some []))
   \<and> agentCalls (fst (onDiscordMessage demoWorld dmMessage botHost)) \<noteq> agentCalls botHost"
proof -
  let ?hello = "chatMessage ''g1'' ''hello'' ''2026-01-01T10:00:00.000Z''"
  let ?hi = "chatMessage ''g1'' ''@bot hi'' ''2026-01-01T10:00:01.000Z''"
  let ?other = "chatMessage ''g9'' ''@bot hi'' ''2026-01-01T10:00:01.000Z''"
  let ?g = "demoGroup ''g1'' (Some ''@bot'')"
  let ?dg = "demoGroup ''discord-dm-777'' (Some [])"
  have m: "m_chat_jid ?hello = ''g1''" "trim (m_content ?hello) = ''hello''"
    "m_chat_jid ?hi = ''g1''" "trim (m_content ?hi) = ''@bot hi''"
    "m_chat_jid ?other = ''g9''"
    by (simp_all add: chatMessage_def trim_plain)
  have reg: "map_of (registeredGroups botHost) ''g1'' = Some ?g"
    "map_of (registeredGroups botHost) ''g9'' = None"
    "map_of (registeredGroups botHost) (discordJidOf dmMessage) = Some ?dg"
    by (simp_all add: botHost_def emptyHost_def discordJidOf_def dmMessage_def truthy_def)
  have g: "truthy (g_trigger ?g)" "str (g_trigger ?g) = ''@bot''" "g_trigger ?dg = Some []"
    "\<not> dm_authorBot dmMessage"
    by (simp_all add: demoGroup_def truthy_def str_def dmMessage_def)
  have a: "processMessage demoWorld ?hello botHost = (botHost, Returned)"
    using trigger_eligibility [where h = botHost and msg = ?hello and grp = ?g and w = demoWorld]
          reg(1) not_approval_plain(2) g literalRx_bot(2)
    by (simp add: m)
  have b: "agentCalls (fst (processMessage demoWorld ?hi botHost)) \<noteq> agentCalls botHost"
    using trigger_eligibility [where h = botHost and msg = ?hi and grp = ?g and w = demoWorld]
          reg(1) not_approval_plain(1) g literalRx_bot(1)
    by (simp add: m)
  have c: "processMessage demoWorld ?other botHost = (botHost, Returned)"
    using trigger_eligibility [where h = botHost and msg = ?other and w = demoWorld] reg(2)
    by (simp add: m)
  have d: "agentCalls (fst (onDiscordMessage demoWorld dmMessage botHost)) \<noteq> agentCalls botHost"
    using trigger_eligibility [where h = botHost and message = dmMessage and dgrp = ?dg
            and w = demoWorld] reg(3) g
    by simp
  from reg a b c d show ?thesis by simp
qed

lemma fetch_first:
  "getNewMessages w [''c1@g.us''] [] inboxHost =
     take (batchLimit w) [chatMessage ''c1@g.us'' ''please summarise'' ''2026-01-01T10:00:00.000Z'']"
  by (simp add: getNewMessages_def inboxHost_def autoHost_def emptyHost_def chatMessage_def)

lemma trim_request: "trim ''please summarise'' = ''please summarise''"
  by (simp add: trim_def isSpace_def)

lemma not_approval_request:
  "\<not> isApproval (checkApprovalMessage ''please summarise'' ''c1@g.us'' h)"
  by (simp add: checkApprovalMessage_def matchApproval_def toLowerCase_def toLowerChar_def
        startsWith_def Let_def)

lemma logMsg_typing_frame [simp]:
  "lastTimestamp (setTyping jid b h) = lastTimestamp h"
  "lastAgentTimestamp (setTyping jid b h) = lastAgentTimestamp h"
  "registeredGroups (setTyping jid b h) = registeredGroups h"
  "messages (setTyping jid b h) = messages h"
  "outbox (setTyping jid b h) = outbox h"
  by (simp_all add: setTyping_def)

lemma runAgent_failed:
  assumes "agentFailed (runContainerAgent w (length (agentCalls h))
             \<lparr>a_prompt = prompt, a_sessionId = map_of (sessions h) (g_folder grp),
              a_groupFolder = g_folder grp, a_chatJid = chatJid,
              a_isMain = (g_folder grp = MAIN_GROUP_FOLDER w)\<rparr>)"
  shows "snd (runAgent w grp prompt chatJid h) = None"
    and "lastTimestamp (fst (runAgent w grp prompt chatJid h)) = lastTimestamp h"
    and "lastAgentTimestamp (fst (runAgent w grp prompt chatJid h)) = lastAgentTimestamp h"
    and "registeredGroups (fst (runAgent w grp prompt chatJid h)) = registeredGroups h"
    and "messages (fst (runAgent w grp prompt chatJid h)) = messages h"
    and "outbox (fst (runAgent w grp prompt chatJid h)) = outbox h"
  using assms
  by (simp_all add: runAgent_def Let_def agentFailed_def split: AgentResult.splits)

lemma processMessage_agent_failed:
  assumes reg: "map_of (registeredGroups h) (m_chat_jid msg) = Some grp"
      and na: "\<not> isApproval (checkApprovalMessage (trim (m_content msg)) (m_chat_jid msg) h)"
      and tp: "triggerPasses w grp (trim (m_content msg)) = Some True"
      and af: "agentFailed (runContainerAgent w (length (agentCalls h)) (agentInput w grp msg h))"
  shows "snd (processMessage w msg h) = Returned"
    and "agentCalls (fst (processMessage w msg h)) = agentCalls h @ [agentInput w grp msg h]"
    and "lastTimestamp (fst (processMessage w msg h)) = lastTimestamp h"
    and "lastAgentTimestamp (fst (processMessage w msg h)) = lastAgentTimestamp h"
    and "registeredGroups (fst (processMessage w msg h)) = registeredGroups h"
    and "messages (fst (processMessage w msg h)) = messages h"
    and "outbox (fst (processMessage w msg h)) = outbox h"
proof -
  define prompt where "prompt = buildPrompt (getMessagesSince (m_chat_jid msg)
                                 (str (map_of (lastAgentTimestamp h) (m_chat_jid msg))) h)"
  define h1 where "h1 = setTyping (m_chat_jid msg) True (logMsg LInfo ''Processing message'' h)"
  have af1: "agentFailed (runContainerAgent w (length (agentCalls h1))
             \<lparr>a_prompt = prompt, a_sessionId = map_of (sessions h1) (g_folder grp),
              a_groupFolder = g_folder grp, a_chatJid = m_chat_jid msg,
              a_isMain = (g_folder grp = MAIN_GROUP_FOLDER w)\<rparr>)"
    using af by (simp add: h1_def agentInput_def prompt_def)
  note rf = runAgent_failed [OF af1]
  obtain h2 response where ra: "runAgent w grp prompt (m_chat_jid msg) h1 = (h2, response)"
    by (cases "runAgent w grp prompt (m_chat_jid msg) h1")
  with rf have h2: "response = None" "lastTimestamp h2 = lastTimestamp h"
    "lastAgentTimestamp h2 = lastAgentTimestamp h" "registeredGroups h2 = registeredGroups h"
    "messages h2 = messages h" "outbox h2 = outbox h"
    by (simp_all add: h1_def)
  have pm: "processMessage w msg h = (setTyping (m_chat_jid msg) False h2, Returned)"
    using reg na tp ra h2(1)
    by (simp add: processMessage_def Let_def prompt_def [symmetric] h1_def [symmetric] truthy_def)
  show "snd (processMessage w msg h) = Returned" by (simp add: pm)
  show "agentCalls (fst (processMessage w msg h)) = agentCalls h @ [agentInput w grp msg h]"
    using processMessage_routed(3) [OF reg na tp] by simp
  show "lastTimestamp (fst (processMessage w msg h)) = lastTimestamp h"
    "lastAgentTimestamp (fst (processMessage w msg h)) = lastAgentTimestamp h"
    "registeredGroups (fst (processMessage w msg h)) = registeredGroups h"
    "messages (fst (processMessage w msg h)) = messages h"
    "outbox (fst (processMessage w msg h)) = outbox h"
    using h2 by (simp_all add: pm)
qed

lemma processBatch_single_returned:
  assumes "snd (processMessage w msg h) = Returned"
  shows "processBatch w [msg] h = (fst (processMessage w msg h))\<lparr>lastTimestamp := m_timestamp msg\<rparr>"
  using assms by (cases "processMessage w msg h") simp

text \<open>
  Claim C1 at a failing input. One message waits in a registered chat with the empty
  trigger, and the sandbox answers every invocation with status \<open>error\<close>. \<open>runAgent\<close> turns
  the failure into \<^verbatim>\<open>null\<close>, \<open>processMessage\<close> returns normally, and the loop sets the
  watermark to the timestamp of that message: nothing is sent, the per-group timestamp
  stays, the next fetch no longer contains the message, and a further cycle, even with a
  sandbox that now succeeds, does not invoke the agent again.
\<close>

theorem watermark_advances_past_agent_error:
  "lastTimestamp inboxHost = []
   \<and> getNewMessages failingAgentWorld (map fst (registeredGroups inboxHost))
        (lastTimestamp inboxHost) inboxHost
       = [chatMessage ''c1@g.us'' ''please summarise'' ''2026-01-01T10:00:00.000Z'']
   \<and> lastTimestamp (messageLoopCycle failingAgentWorld inboxHost) = ''2026-01-01T10:00:00.000Z''
   \<and> length (agentCalls (messageLoopCycle failingAgentWorld inboxHost)) = 1
   \<and> outbox (messageLoopCycle failingAgentWorld inboxHost) = []
   \<and> lastAgentTimestamp (messageLoopCycle failingAgentWorld inboxHost) = []
   \<and> getNewMessages demoWorld
        (map fst (registeredGroups (messageLoopCycle failingAgentWorld inboxHost)))
        (lastTimestamp (messageLoopCycle failingAgentWorld inboxHost))
        (messageLoopCycle failingAgentWorld inboxHost) = []
   \<and> messageLoopCycle demoWorld (messageLoopCycle failingAgentWorld inboxHost)
       = messageLoopCycle failingAgentWorld inboxHost"
proof -
  let ?msg = "chatMessage ''c1@g.us'' ''please summarise'' ''2026-01-01T10:00:00.000Z''"
  let ?w = failingAgentWorld
  let ?h0 = "logMsg LInfo ''New messages'' inboxHost"
  let ?g = "demoGroup ''g1'' (Some [])"
  have i: "lastTimestamp inboxHost = []" "map fst (registeredGroups inboxHost) = [''c1@g.us'']"
    "outbox inboxHost = []" "lastAgentTimestamp inboxHost = []" "agentCalls inboxHost = []"
    "messages inboxHost = [?msg]"
    by (simp_all add: inboxHost_def autoHost_def emptyHost_def)
  have bl: "batchLimit ?w = 100" "batchLimit demoWorld = 100"
    by (simp_all add: failingAgentWorld_def demoWorld_def)
  have fetch: "getNewMessages ?w (map fst (registeredGroups inboxHost)) (lastTimestamp inboxHost)
                 inboxHost = [?msg]"
    by (simp add: i(1,2) fetch_first bl)
  have m: "m_chat_jid ?msg = ''c1@g.us''" "trim (m_content ?msg) = ''please summarise''"
    "m_timestamp ?msg = ''2026-01-01T10:00:00.000Z''"
    by (simp_all add: chatMessage_def trim_request)
  have reg: "map_of (registeredGroups ?h0) (m_chat_jid ?msg) = Some ?g"
    by (simp add: m inboxHost_def autoHost_def emptyHost_def)
  have na: "\<not> isApproval (checkApprovalMessage (trim (m_content ?msg)) (m_chat_jid ?msg) ?h0)"
    by (simp add: m not_approval_request)
  have tp: "triggerPasses ?w ?g (trim (m_content ?msg)) = Some True"
    by (simp add: triggerPasses_def demoGroup_def truthy_def)
  have af: "agentFailed (runContainerAgent ?w (length (agentCalls ?h0)) (agentInput ?w ?g ?msg ?h0))"
    by (simp add: failingAgentWorld_def agentFailed_def errorOutput_def)
  note pm = processMessage_agent_failed [OF reg na tp af]
  have cyc: "messageLoopCycle ?w inboxHost =
               (fst (processMessage ?w ?msg ?h0))\<lparr>lastTimestamp := m_timestamp ?msg\<rparr>"
    using processBatch_single_returned [OF pm(1)] fetch
    by (simp add: messageLoopCycle_def Let_def)
  have r: "lastTimestamp (messageLoopCycle ?w inboxHost) = ''2026-01-01T10:00:00.000Z''"
    "length (agentCalls (messageLoopCycle ?w inboxHost)) = 1"
    "outbox (messageLoopCycle ?w inboxHost) = []"
    "lastAgentTimestamp (messageLoopCycle ?w inboxHost) = []"
    "registeredGroups (messageLoopCycle ?w inboxHost) = registeredGroups inboxHost"
    "messages (messageLoopCycle ?w inboxHost) = [?msg]"
    unfolding cyc using pm i by (simp_all add: m)
  have again: "getNewMessages demoWorld
        (map fst (registeredGroups (messageLoopCycle ?w inboxHost)))
        (lastTimestamp (messageLoopCycle ?w inboxHost)) (messageLoopCycle ?w inboxHost) = []"
    by (simp add: getNewMessages_def r m)
  have idle: "messageLoopCycle demoWorld (messageLoopCycle ?w inboxHost)
                = messageLoopCycle ?w inboxHost"
    using again by (simp add: messageLoopCycle_def Let_def)
  from i(1) fetch r(1-4) again idle show ?thesis by simp
qed


section \<open>Properties of the mailbox channel\<close>

lemma ids_markResponded:
  "map e_id (map (\<lambda>r. if e_id r = y then r\<lparr>e_responded := True\<rparr> else r) rs) = map e_id rs"
  by (induction rs) auto

lemma isEmailProcessed_responded [simp]:
  "isEmailProcessed x (markEmailResponded y h) = isEmailProcessed x h"
proof -
  have "processedEmails (markEmailResponded y h) =
          map (\<lambda>r. if e_id r = y then r\<lparr>e_responded := True\<rparr> else r) (processedEmails h)"
    by (simp add: markEmailResponded_def)
  then have "map e_id (processedEmails (markEmailResponded y h)) = map e_id (processedEmails h)"
    by (simp only: ids_markResponded)
  then show ?thesis unfolding isEmailProcessed_def by (simp only:)
qed

lemma isEmailProcessed_frames [simp]:
  "isEmailProcessed x (logMsg l m h) = isEmailProcessed x h"
  "isEmailProcessed x (h\<lparr>files := fs\<rparr>) = isEmailProcessed x h"
  by (simp_all add: isEmailProcessed_def logMsg_def)


lemma mailAttempts_frames [simp]:
  "mailAttempts (markEmailResponded y h) = mailAttempts h"
  "mailAttempts (markEmailProcessed w y threadId sender subject h) = mailAttempts h"
  by (simp_all add: markEmailResponded_def markEmailProcessed_def)



















end
